theory Spec2Isabelle
  imports Main "HOL-Library.Word" "HOL-Library.Signed_Division"
begin

unbundle bit_operations_syntax

section \<open>Data model\<close>

text \<open>
  The program (a single Go file) decodes a 128-bit UUID held in a byte slice
  \<^verbatim>\<open>type UUIDByte []byte\<close>.  Bytes are 8-bit words, Go's \<^verbatim>\<open>uint16\<close>,
  \<^verbatim>\<open>uint32\<close> and \<^verbatim>\<open>int64\<close> are words of that width, so that every addition,
  multiplication and shift wraps as the machine operation does.  Go's \<^verbatim>\<open>int\<close>
  results (version, clock sequence, domain, local id) are built from at most 32 bits
  of unsigned data and are held in a 64-bit \<^verbatim>\<open>int\<close>; they are modelled as HOL
  integers.

  An index expression \<^verbatim>\<open>u[i]\<close> with \<^verbatim>\<open>i >= len(u)\<close> is a run-time panic in Go.
  Every function that indexes returns an \<open>option\<close>: \<open>None\<close> is the panic.
\<close>

type_synonym byte = "8 word"

datatype UUIDVariant =
    NullVariant
  | VariantNCS
  | VariantRFC4122
  | VariantMicrosoft
  | VariantFuture

definition secondFieldIdx :: nat where "secondFieldIdx = 4"
definition versionIdx :: nat where "versionIdx = 6"
definition variantIdx :: nat where "variantIdx = 8"
definition macIdx :: nat where "macIdx = 10"
definition uuidLength :: nat where "uuidLength = 16"
definition macLength :: nat where "macLength = 6"

lemmas idx_defs =
  secondFieldIdx_def versionIdx_def variantIdx_def macIdx_def uuidLength_def macLength_def

text \<open>\<^verbatim>\<open>u[i]\<close>: the element, or the index-out-of-range panic.\<close>

definition index :: "'a list \<Rightarrow> nat \<Rightarrow> 'a option" where
  "index u i = (if i < length u then Some (u ! i) else None)"

section \<open>Field extractor\<close>

text \<open>\<^verbatim>\<open>func (u UUIDByte) Version() UUIDVersion { return UUIDVersion(u[versionIdx] >> 4) }\<close>\<close>

definition Version :: "byte list \<Rightarrow> int option" where
  "Version u = map_option (\<lambda>b. uint (drop_bit 4 b)) (index u versionIdx)"

text \<open>
  \<^verbatim>\<open>Variant\<close>: a switch on \<^verbatim>\<open>v := u[variantIdx] >> 4\<close>; the cases are tried in the
  order of the source.
\<close>

definition Variant :: "byte list \<Rightarrow> UUIDVariant option" where
  "Variant u = map_option (\<lambda>b.
     let v = drop_bit 4 b in
     if v \<le> 7 then VariantNCS
     else if v \<ge> 8 \<and> v \<le> 0x0b then VariantRFC4122
     else if v \<ge> 0x0c \<and> v \<le> 0x0d then VariantMicrosoft
     else VariantFuture) (index u variantIdx)"

text \<open>
  \<^verbatim>\<open>MaskVariant\<close>: a switch on the top bits of \<^verbatim>\<open>b := u[variantIdx]\<close>.
\<close>

definition maskByte :: "byte \<Rightarrow> byte" where
  "maskByte b =
     (if b AND 0x80 = 0 then b AND 0x7f
      else if b AND 0xc0 = 0x80 then b AND 0x3f
      else b AND 0x1f)"

definition MaskVariant :: "byte list \<Rightarrow> byte option" where
  "MaskVariant u = map_option maskByte (index u variantIdx)"


section \<open>Timestamp reconstructor\<close>

subsection \<open>The three time fields\<close>

text \<open>
  Time low, a \<^verbatim>\<open>uint32\<close>.  The source loop is
  \<^verbatim>\<open>for m := uint32(1); i < secondFieldIdx; i++ { v := uint32(u[i]); if le { timeLow += v * m; m <<= 8 } else { timeLow = (timeLow << 8) + v } }\<close>
  with loop state \<open>i\<close>, \<open>m\<close> and \<open>timeLow\<close>.
\<close>

function timeLow_loop :: "byte list \<Rightarrow> bool \<Rightarrow> nat \<Rightarrow> 32 word \<Rightarrow> 32 word \<Rightarrow> 32 word option" where
  "timeLow_loop u le i m timeLow =
     (if i < secondFieldIdx then
        (case index u i of
           None \<Rightarrow> None
         | Some b \<Rightarrow>
             let v = (ucast b :: 32 word) in
             if le then timeLow_loop u le (i + 1) (push_bit 8 m) (timeLow + v * m)
             else timeLow_loop u le (i + 1) m (push_bit 8 timeLow + v))
      else Some timeLow)"
  by pat_completeness auto
termination
  by (relation "measure (\<lambda>(u, le, i, m, timeLow). secondFieldIdx - i)") auto

definition timeLow :: "byte list \<Rightarrow> bool \<Rightarrow> 32 word option" where
  "timeLow u le = timeLow_loop u le 0 1 0"

text \<open>
  Time mid, a \<^verbatim>\<open>uint16\<close>: \<^verbatim>\<open>uint16(u[i]) + uint16(u[i+1]) << 8\<close> when \<^verbatim>\<open>le\<close>, else
  \<^verbatim>\<open>(uint16(u[i]) << 8) + uint16(u[i+1])\<close>, at \<^verbatim>\<open>i = secondFieldIdx\<close>.  In Go \<^verbatim>\<open><<\<close>
  binds tighter than \<^verbatim>\<open>+\<close>.
\<close>

definition timeMid :: "byte list \<Rightarrow> bool \<Rightarrow> 16 word option" where
  "timeMid u le =
     (case index u secondFieldIdx of
        None \<Rightarrow> None
      | Some b0 \<Rightarrow>
         (case index u (secondFieldIdx + 1) of
            None \<Rightarrow> None
          | Some b1 \<Rightarrow>
              Some (if le then ucast b0 + push_bit 8 (ucast b1)
                    else push_bit 8 (ucast b0) + ucast b1)))"

text \<open>
  Time high, a \<^verbatim>\<open>uint16\<close>: \<^verbatim>\<open>uint16(u[i] & 0x0f) + uint16(u[i+1]) << 4\<close> when \<^verbatim>\<open>le\<close>,
  else \<^verbatim>\<open>(uint16(u[i] & 0x0f) << 8) + uint16(u[i+1])\<close>, at \<^verbatim>\<open>i = versionIdx\<close>.
\<close>

definition timeHigh :: "byte list \<Rightarrow> bool \<Rightarrow> 16 word option" where
  "timeHigh u le =
     (case index u versionIdx of
        None \<Rightarrow> None
      | Some b0 \<Rightarrow>
         (case index u (versionIdx + 1) of
            None \<Rightarrow> None
          | Some b1 \<Rightarrow>
              Some (if le then ucast (b0 AND 0x0f) + push_bit 4 (ucast b1)
                    else push_bit 8 (ucast (b0 AND 0x0f)) + ucast b1)))"

text \<open>
  The reading of time high that gives byte 7 the place value \<open>2 ^ 8\<close> in the
  little-endian case, as time mid does with byte 5.  It is compared with
  \<open>timeHigh\<close> below.
\<close>

definition timeHigh_bytewise :: "byte list \<Rightarrow> bool \<Rightarrow> 16 word" where
  "timeHigh_bytewise u le =
     (if le then ucast (u ! 6 AND 0x0f) + push_bit 8 (ucast (u ! 7))
      else push_bit 8 (ucast (u ! 6 AND 0x0f)) + ucast (u ! 7))"

text \<open>
  The tick count, an \<^verbatim>\<open>int64\<close>, by the switch on the version:
  \<^verbatim>\<open>int64(timeLow) + int64(timeMid) << 32 + int64(timeHigh) << 48\<close> for version 1,
  without the first summand for version 2, and the zero value otherwise.
\<close>

definition timeUnits :: "int \<Rightarrow> 32 word \<Rightarrow> 16 word \<Rightarrow> 16 word \<Rightarrow> 64 word" where
  "timeUnits version lo mid hi =
     (if version = 1 then ucast lo + push_bit 32 (ucast mid) + push_bit 48 (ucast hi)
      else if version = 2 then push_bit 32 (ucast mid) + push_bit 48 (ucast hi)
      else 0)"

subsection \<open>Calendar time\<close>

text \<open>
  Go's \<^verbatim>\<open>time.Time\<close> without a monotonic clock reading holds the seconds since
  January 1, year 1, 00:00:00 UTC in an \<^verbatim>\<open>int64\<close> (\<^verbatim>\<open>ext\<close>) and the nanoseconds
  within the second, in \<open>[0, 999999999]\<close>, read as an \<^verbatim>\<open>int32\<close>.  A
  \<^verbatim>\<open>time.Duration\<close> is an \<^verbatim>\<open>int64\<close> count of nanoseconds.

  \<^verbatim>\<open>Time.Add\<close> of the standard library:
  \<^verbatim>\<open>dsec := int64(d / 1e9); nsec := t.nsec() + int32(d%1e9);
  if nsec >= 1e9 { dsec++; nsec -= 1e9 } else if nsec < 0 { dsec--; nsec += 1e9 };
  t.wall = t.wall&^nsecMask | uint64(nsec); t.addSec(dsec)\<close>,
  where \<^verbatim>\<open>addSec\<close> saturates instead of wrapping:
  \<^verbatim>\<open>sum := t.ext + d; if (sum > t.ext) == (d > 0) { t.ext = sum } else if d > 0 { t.ext = 1<<63 - 1 } else { t.ext = -(1<<63 - 1) }\<close>.
  Go's \<^verbatim>\<open>/\<close> and \<^verbatim>\<open>%\<close> truncate towards zero (\<open>sdiv\<close>, \<open>smod\<close>).
\<close>

record Time =
  ext :: "64 word"
  nsec :: "32 word"

definition addSec :: "Time \<Rightarrow> 64 word \<Rightarrow> Time" where
  "addSec t d =
     (let sum = ext t + d in
      if (ext t <s sum) = (0 <s d) then t\<lparr>ext := sum\<rparr>
      else if 0 <s d then t\<lparr>ext := 0x7fffffffffffffff\<rparr>
      else t\<lparr>ext := - 0x7fffffffffffffff\<rparr>)"

definition Add :: "Time \<Rightarrow> 64 word \<Rightarrow> Time" where
  "Add t d =
     (let dsec = (word_of_int (sint d sdiv 1000000000) :: 64 word);
          ns = nsec t + (word_of_int (sint d smod 1000000000) :: 32 word)
      in if 1000000000 \<le>s ns then addSec (t\<lparr>nsec := ns - 1000000000\<rparr>) (dsec + 1)
         else if ns <s 0 then addSec (t\<lparr>nsec := ns + 1000000000\<rparr>) (dsec - 1)
         else addSec (t\<lparr>nsec := ns\<rparr>) dsec)"

text \<open>
  \<^verbatim>\<open>UUIDTimeBase = time.Date(1582, 10, 15, 0, 0, 0, 0, time.UTC)\<close>: day 577735 after
  January 1 of year 1 in the proleptic Gregorian calendar (\<open>daysBefore\<close> below
  recomputes it), at 86400 seconds a day.
\<close>

definition daysBefore :: "int \<Rightarrow> int \<Rightarrow> int \<Rightarrow> int" where
  "daysBefore y monthDays d =
     365 * (y - 1) + (y - 1) div 4 - (y - 1) div 100 + (y - 1) div 400 + monthDays + (d - 1)"

definition UUIDTimeBase :: Time where
  "UUIDTimeBase = \<lparr>ext = 49916304000, nsec = 0\<rparr>"

text \<open>The nanoseconds from January 1, year 1 to a time, as an unbounded integer.\<close>

definition sinceYear1 :: "Time \<Rightarrow> int" where
  "sinceYear1 t = sint (ext t) * 1000000000 + sint (nsec t)"

text \<open>
  \<^verbatim>\<open>UUITTimeUnit = 100 * time.Nanosecond\<close> and
  \<^verbatim>\<open>MaxDurationUnit = (1<<63 - 1) / 100\<close>, the largest \<^verbatim>\<open>time.Duration\<close> in units
  of 100 ns.
\<close>

definition UUITTimeUnit :: "64 word" where
  "UUITTimeUnit = 100 * 1"

definition MaxDurationUnit :: "64 word" where
  "MaxDurationUnit = (2 ^ 63 - 1) div 100"

text \<open>
  The conversion loop
  \<^verbatim>\<open>for timeUnits > 0 { if timeUnits > MaxDurationUnit { theTime = theTime.Add(MaxDurationUnit*UUITTimeUnit); timeUnits -= MaxDurationUnit } else { theTime = theTime.Add(time.Duration(timeUnits)*UUITTimeUnit); timeUnits = 0 } }\<close>
  on \<^verbatim>\<open>int64\<close>, with signed comparisons and wrapping arithmetic.
\<close>

function addTicks :: "Time \<Rightarrow> 64 word \<Rightarrow> Time" where
  "addTicks theTime tu =
     (if 0 <s tu then
        (if MaxDurationUnit <s tu
         then addTicks (Add theTime (MaxDurationUnit * UUITTimeUnit)) (tu - MaxDurationUnit)
         else addTicks (Add theTime (tu * UUITTimeUnit)) 0)
      else theTime)"
  by pat_completeness auto
termination
proof (relation "measure (\<lambda>(theTime, tu). nat (sint tu))")
  show "wf (measure (\<lambda>(theTime, tu). nat (sint tu)))" by simp
next
  fix theTime :: Time and tu :: "64 word"
  assume pos: "0 <s tu" and big: "MaxDurationUnit <s tu"
  have m: "sint MaxDurationUnit = 92233720368547758"
    by (simp add: MaxDurationUnit_def)
  from big have lt: "92233720368547758 < sint tu"
    by (simp add: word_sless_alt m)
  have ub: "sint tu < 2 ^ 63"
    using sint_lt [of tu] by simp
  have "sint (tu - MaxDurationUnit) = signed_take_bit 63 (sint tu - 92233720368547758)"
    by (simp add: sint_word_diff m)
  also have "\<dots> = sint tu - 92233720368547758"
    using lt ub by (simp add: signed_take_bit_int_eq_self)
  finally have "sint (tu - MaxDurationUnit) = sint tu - 92233720368547758" .
  with lt show "((Add theTime (MaxDurationUnit * UUITTimeUnit), tu - MaxDurationUnit), theTime, tu)
      \<in> measure (\<lambda>(theTime, tu). nat (sint tu))"
    by simp
next
  fix theTime :: Time and tu :: "64 word"
  assume pos: "0 <s tu"
  then show "((Add theTime (tu * UUITTimeUnit), 0), theTime, tu)
      \<in> measure (\<lambda>(theTime, tu). nat (sint tu))"
    by (simp add: word_sless_alt)
qed

declare addTicks.simps [simp del]

subsection \<open>TimeInfo\<close>

text \<open>
  \<^verbatim>\<open>func (u UUIDByte) TimeInfo(le bool) (theTime time.Time, clkSeq, domain, localID int)\<close>.
  The named results \<^verbatim>\<open>domain\<close> and \<^verbatim>\<open>localID\<close> start at 0.  The slice accesses
  happen in the order of the source; the first one out of range is the panic.
\<close>

definition TimeInfo :: "byte list \<Rightarrow> bool \<Rightarrow> (Time \<times> int \<times> int \<times> int) option" where
  "TimeInfo u le =
     (case Version u of None \<Rightarrow> None | Some version \<Rightarrow>
     (case timeLow u le of None \<Rightarrow> None | Some lo \<Rightarrow>
     (case timeMid u le of None \<Rightarrow> None | Some mid \<Rightarrow>
     (case timeHigh u le of None \<Rightarrow> None | Some hi \<Rightarrow>
        let tu = timeUnits version lo mid hi;
            localID = (if version = 2 then uint lo else 0);
            theTime = addTicks UUIDTimeBase tu
        in (case MaskVariant u of None \<Rightarrow> None | Some mv \<Rightarrow>
             let clkSeq = uint mv in
             if version = 1 then
               (case index u (variantIdx + 1) of
                  None \<Rightarrow> None
                | Some b \<Rightarrow> Some (theTime, push_bit 8 clkSeq + uint b, 0, localID))
             else if version = 2 then
               (case index u (variantIdx + 1) of
                  None \<Rightarrow> None
                | Some b \<Rightarrow> Some (theTime, clkSeq, uint b, localID))
             else Some (theTime, clkSeq, 0, localID))))))"


section \<open>Canonical string rendering\<close>

text \<open>
  Go strings are byte sequences and \<open>char\<close> is a byte, so a string is a
  \<open>char list\<close>.  \<^verbatim>\<open>hex.EncodeToString\<close> writes two digits of
  \<^verbatim>\<open>hextable = "0123456789abcdef"\<close> for every byte \<^verbatim>\<open>v\<close>:
  \<^verbatim>\<open>hextable[v>>4]\<close>, then \<^verbatim>\<open>hextable[v&0x0f]\<close>.
\<close>

definition hextable :: string where
  "hextable = ''0123456789abcdef''"

fun EncodeToString :: "byte list \<Rightarrow> string" where
  "EncodeToString [] = []"
| "EncodeToString (v # vs) =
     hextable ! unat (drop_bit 4 v) # hextable ! unat (v AND 0x0f) # EncodeToString vs"

text \<open>
  \<^verbatim>\<open>strings.ToUpper\<close> on ASCII text, which is all the program passes to it: the
  letters \<^verbatim>\<open>a\<close> to \<^verbatim>\<open>z\<close> (97 to 122) lose the bit of value 32, every other byte
  stays.
\<close>

definition upperChar :: "char \<Rightarrow> char" where
  "upperChar c =
     (case c of Char b0 b1 b2 b3 b4 b5 b6 b7 \<Rightarrow>
        if 97 \<le> (of_char c :: nat) \<and> (of_char c :: nat) \<le> 122
        then Char b0 b1 b2 b3 b4 False b6 b7 else c)"

definition ToUpper :: "string \<Rightarrow> string" where
  "ToUpper s = map upperChar s"

text \<open>
  A slice expression \<^verbatim>\<open>u[lo:hi]\<close> on a slice whose capacity is its length (as
  \<^verbatim>\<open>make\<close> gives it): the elements from \<open>lo\<close> up to \<open>hi\<close>, or the
  slice-bounds panic.
\<close>

definition slice :: "'a list \<Rightarrow> nat \<Rightarrow> nat \<Rightarrow> 'a list option" where
  "slice u lo hi = (if lo \<le> hi \<and> hi \<le> length u then Some (take (hi - lo) (drop lo u)) else None)"

text \<open>
  \<^verbatim>\<open>func (u UUIDByte) String() string\<close>: the loop
  \<^verbatim>\<open>for i, l := range []int{secondFieldIdx, versionIdx, variantIdx, macIdx, uuidLength} { if i > 0 { b.WriteString("-") }; b.WriteString(hex.EncodeToString(u[lastIdx:l])); lastIdx = l }\<close>
  with the builder \<open>b\<close>, then \<^verbatim>\<open>strings.ToUpper(b.String())\<close>.
\<close>

fun String_loop :: "byte list \<Rightarrow> nat \<Rightarrow> nat \<Rightarrow> nat list \<Rightarrow> string \<Rightarrow> string option" where
  "String_loop u i lastIdx [] b = Some b"
| "String_loop u i lastIdx (l # ls) b =
     (let b1 = (if i > 0 then b @ ''-'' else b) in
      case slice u lastIdx l of
        None \<Rightarrow> None
      | Some field \<Rightarrow> String_loop u (i + 1) l ls (b1 @ EncodeToString field))"

definition String :: "byte list \<Rightarrow> string option" where
  "String u =
     map_option ToUpper
       (String_loop u 0 0 [secondFieldIdx, versionIdx, variantIdx, macIdx, uuidLength] [])"

section \<open>Canonical parser\<close>

text \<open>
  \<^verbatim>\<open>hex.Decode\<close> of the standard library reads two characters at a time through
  \<^verbatim>\<open>reverseHexTable\<close> (the digit value of a hexadecimal character of either
  case, \<^verbatim>\<open>0xff\<close> for any other byte), writes \<^verbatim>\<open>(a << 4) | b\<close> to the destination
  and stops at the first invalid character with \<^verbatim>\<open>InvalidByteError\<close>; a
  dangling last character is checked the same way and then reported as
  \<^verbatim>\<open>ErrLength\<close>.  It returns the number of bytes written and the error.
  \<open>Decode\<close> returns the bytes written, in order, and the error.
\<close>

datatype hex_error = InvalidByteError char | ErrLength

definition reverseHexTable :: "char \<Rightarrow> byte" where
  "reverseHexTable c =
     (let n = (of_char c :: nat) in
      if 48 \<le> n \<and> n \<le> 57 then of_nat (n - 48)
      else if 97 \<le> n \<and> n \<le> 102 then of_nat (n - 87)
      else if 65 \<le> n \<and> n \<le> 70 then of_nat (n - 55)
      else 0xff)"

fun Decode :: "string \<Rightarrow> byte list \<times> hex_error option" where
  "Decode (p # q # rest) =
     (let a = reverseHexTable p; b = reverseHexTable q in
      if a > 0x0f then ([], Some (InvalidByteError p))
      else if b > 0x0f then ([], Some (InvalidByteError q))
      else (case Decode rest of (bs, e) \<Rightarrow> ((push_bit 4 a OR b) # bs, e)))"
| "Decode [p] =
     (if reverseHexTable p > 0x0f then ([], Some (InvalidByteError p))
      else ([], Some ErrLength))"
| "Decode [] = ([], None)"

text \<open>\<^verbatim>\<open>hex.DecodedLen(x) = x / 2\<close>.\<close>

definition DecodedLen :: "nat \<Rightarrow> nat" where
  "DecodedLen x = x div 2"

text \<open>
  \<^verbatim>\<open>strings.Replace(src, "-", "", -1)\<close> removes every dash;
  \<^verbatim>\<open>strings.TrimPrefix\<close> and \<^verbatim>\<open>strings.TrimSuffix\<close> remove the given prefix or
  suffix once when the string has it and return the string unchanged otherwise.
\<close>

definition removeDashes :: "string \<Rightarrow> string" where
  "removeDashes src = filter (\<lambda>c. c \<noteq> CHR ''-'') src"

definition TrimPrefix :: "string \<Rightarrow> string \<Rightarrow> string" where
  "TrimPrefix s p = (if take (length p) s = p then drop (length p) s else s)"

definition TrimSuffix :: "string \<Rightarrow> string \<Rightarrow> string" where
  "TrimSuffix s x =
     (if length x \<le> length s \<and> drop (length s - length x) s = x
      then take (length s - length x) s else s)"

text \<open>
  The errors \<^verbatim>\<open>FromString\<close> returns: the wrapped decoding error, and the wrong
  length with the number of bytes decoded.  Both messages quote the input.
\<close>

datatype parse_error =
    DecodeError hex_error string
  | LengthError string nat

text \<open>
  The second half of \<^verbatim>\<open>FromString\<close>, from the allocation on:
  \<^verbatim>\<open>*u = make(UUIDByte, hex.DecodedLen(len(s)))\<close>, then \<^verbatim>\<open>hex.Decode(*u, []byte(s))\<close>
  into the receiver, then the two checks.  The result is the receiver after the
  call and the error, if any.  The receiver is a zeroed buffer of
  \<open>DecodedLen (length s)\<close> bytes whose first bytes are those \<open>Decode\<close> wrote.
\<close>

definition decodeInto :: "string \<Rightarrow> string \<Rightarrow> byte list \<times> parse_error option" where
  "decodeInto src s =
     (case Decode s of (written, err) \<Rightarrow>
        let n = length written;
            u = written @ replicate (DecodedLen (length s) - n) 0
        in (case err of
              Some e \<Rightarrow> (u, Some (DecodeError e src))
            | None \<Rightarrow>
                if n \<noteq> uuidLength then (u, Some (LengthError src n))
                else (u, None)))"

text \<open>
  \<^verbatim>\<open>func (u *UUIDByte) FromString(src string) error\<close>.  The second argument is
  the receiver before the call.  \<open>None\<close> is the run-time panic of \<^verbatim>\<open>s[0]\<close> on an
  empty \<open>s\<close>; otherwise the result is the receiver after the call and the
  returned error (\<open>None\<close> for \<^verbatim>\<open>nil\<close>).
\<close>

definition FromString :: "string \<Rightarrow> byte list \<Rightarrow> (byte list \<times> parse_error option) option" where
  "FromString src u =
     (let s = removeDashes src in
      case index s 0 of
        None \<Rightarrow> None
      | Some c \<Rightarrow>
          let s1 = (if c = CHR ''{'' then TrimSuffix (TrimPrefix s ''{'') ''}''
                    else TrimPrefix s ''urn:uuid:'')
          in Some (decodeInto src s1))"

section \<open>Payload extractor\<close>

text \<open>
  \<^verbatim>\<open>DataInfo\<close> allocates and mutates a slice, so it is modelled on a store: the
  backing arrays of the program, by address.  A slice value is the address of its
  array (every slice of the program covers a whole array).  \<^verbatim>\<open>make\<close> allocates
  a zeroed array at a new address, \<^verbatim>\<open>copy(dst, src)\<close> overwrites the first
  \<open>min (len dst) (len src)\<close> elements of \<^verbatim>\<open>dst\<close>, an indexed store panics out
  of range.
\<close>

type_synonym addr = nat
type_synonym store = "byte list list"

definition make :: "store \<Rightarrow> nat \<Rightarrow> addr \<times> store" where
  "make h n = (length h, h @ [replicate n 0])"

definition copy :: "store \<Rightarrow> addr \<Rightarrow> addr \<Rightarrow> store" where
  "copy h dst src =
     (let n = min (length (h ! dst)) (length (h ! src))
      in h[dst := take n (h ! src) @ drop n (h ! dst)])"

definition load :: "store \<Rightarrow> addr \<Rightarrow> nat \<Rightarrow> byte option" where
  "load h a i = index (h ! a) i"

definition assign :: "store \<Rightarrow> addr \<Rightarrow> nat \<Rightarrow> byte \<Rightarrow> store option" where
  "assign h a i v = (if i < length (h ! a) then Some (h[a := (h ! a)[i := v]]) else None)"

text \<open>
  \<^verbatim>\<open>func (u UUIDByte) DataInfo() []byte { b := make([]byte, len(u)); copy(b, u); b[versionIdx] &= 0x0f; b[variantIdx] = u.MaskVariant(); return b }\<close>.
  The result is the address of \<^verbatim>\<open>b\<close> and the store after the call.
\<close>

definition DataInfo :: "store \<Rightarrow> addr \<Rightarrow> (addr \<times> store) option" where
  "DataInfo h u =
     (case make h (length (h ! u)) of (b, h1) \<Rightarrow>
        let h2 = copy h1 b u in
        case load h2 b versionIdx of
          None \<Rightarrow> None
        | Some x \<Rightarrow>
           (case assign h2 b versionIdx (x AND 0x0f) of
              None \<Rightarrow> None
            | Some h3 \<Rightarrow>
               (case MaskVariant (h3 ! u) of
                  None \<Rightarrow> None
                | Some m \<Rightarrow>
                   (case assign h3 b variantIdx m of
                      None \<Rightarrow> None
                    | Some h4 \<Rightarrow> Some (b, h4)))))"


section \<open>The example of the program\<close>

text \<open>
  The bytes of \<^verbatim>\<open>8be4df61-93ca-11d2-aa0d-00e098032b8c\<close>, the first UUID that
  \<^verbatim>\<open>main\<close> parses.
\<close>

definition exampleUUID :: "byte list" where
  "exampleUUID = [0x8b, 0xe4, 0xdf, 0x61, 0x93, 0xca, 0x11, 0xd2, 0xaa, 0x0d, 0x00, 0xe0, 0x98, 0x03, 0x2b, 0x8c]"

text \<open>
  The tick count \<open>timeLow + (timeMid << 32) + (timeHigh << 48)\<close> of the three fields,
  as an unbounded integer.
\<close>

definition ticksOf :: "32 word \<Rightarrow> 16 word \<Rightarrow> 16 word \<Rightarrow> int" where
  "ticksOf lo mid hi = uint lo + uint mid * 2 ^ 32 + uint hi * 2 ^ 48"

text \<open>
  A version-1 buffer whose byte 7 is \<open>0x01\<close> and whose other time bytes are 0, to
  be read in little-endian order.
\<close>

definition littleEndianExample :: "byte list" where
  "littleEndianExample = [0, 0, 0, 0, 0, 0, 0x10, 0x01, 0x80, 0, 0, 0, 0, 0, 0, 0]"

text \<open>
  The bytes of \<^verbatim>\<open>8be4df61-93ca-21d2-aa0d-00e098032b8c\<close>, the version-2 UUID that
  \<^verbatim>\<open>main\<close> parses.
\<close>

definition exampleUUID2 :: "byte list" where
  "exampleUUID2 = [0x8b, 0xe4, 0xdf, 0x61, 0x93, 0xca, 0x21, 0xd2, 0xaa, 0x0d, 0x00, 0xe0, 0x98, 0x03, 0x2b, 0x8c]"

text \<open>
  The upper-case digit of a nibble and the upper-case hexadecimal text of a byte
  sequence, which is what \<open>String\<close> writes between the dashes.
\<close>

definition upperHexDigit :: "nat \<Rightarrow> char" where
  "upperHexDigit n = upperChar (hextable ! n)"

fun upperHex :: "byte list \<Rightarrow> string" where
  "upperHex [] = []"
| "upperHex (v # vs) =
     upperHexDigit (unat (drop_bit 4 v)) # upperHexDigit (unat (v AND 0x0f)) # upperHex vs"

text \<open>A store that holds the example buffer at address 0.\<close>

definition exampleStore :: store where
  "exampleStore = [exampleUUID]"

text \<open>
  The hexadecimal payload of an input: what is left after the dashes are removed
  and then either the braces or the \<^verbatim>\<open>urn:uuid:\<close> prefix.  On an input with at
  least one character other than a dash it is the string \<open>FromString\<close> decodes.
\<close>

definition payloadOf :: "string \<Rightarrow> string" where
  "payloadOf src =
     (let s = removeDashes src in
      if take 1 s = ''{'' then TrimSuffix (TrimPrefix s ''{'') ''}''
      else TrimPrefix s ''urn:uuid:'')"

section \<open>Properties of the field extractor\<close>

lemma index_16 [simp]: "length u = 16 \<Longrightarrow> i < 16 \<Longrightarrow> index u i = Some (u ! i)"
  by (simp add: index_def)

lemma unat_shr4: "unat (drop_bit 4 (b::byte)) = unat b div 16"
  by (simp add: unat_drop_bit_eq drop_bit_eq_div unat_div)

lemma all_lt8: "(\<forall>n<8. P n) \<longleftrightarrow> P 0 \<and> P 1 \<and> P 2 \<and> P 3 \<and> P 4 \<and> P 5 \<and> P 6 \<and> P (7::nat)"
proof -
  have "{..<8::nat} = {0,1,2,3,4,5,6,7}" by auto
  then have "(\<forall>n<8. P n) \<longleftrightarrow> (\<forall>n\<in>{0,1,2,3,4,5,6,7}. P n)" by (metis lessThan_iff)
  then show ?thesis by simp
qed

lemma byte_eq_iff: "(a::byte) = b \<longleftrightarrow> (\<forall>n<8. bit a n = bit b n)"
  by (auto simp add: bit_eq_iff dest: bit_imp_le_length)

lemma and80: "(b::byte) AND 0x80 = 0 \<longleftrightarrow> \<not> bit b 7"
  by (simp add: byte_eq_iff all_lt8 bit_and_iff)

lemma andc0: "(b::byte) AND 0xc0 = 0x80 \<longleftrightarrow> bit b 7 \<and> \<not> bit b 6"
  by (auto simp add: byte_eq_iff all_lt8 bit_and_iff)

lemma and7f: "(b::byte) AND 0x7f = take_bit 7 b" 
  using take_bit_eq_mask [of 7 b] by (simp add: mask_eq_exp_minus_1)
lemma and3f: "(b::byte) AND 0x3f = take_bit 6 b" 
  using take_bit_eq_mask [of 6 b] by (simp add: mask_eq_exp_minus_1)
lemma and1f: "(b::byte) AND 0x1f = take_bit 5 b" 
  using take_bit_eq_mask [of 5 b] by (simp add: mask_eq_exp_minus_1)
lemma and0f: "(b::byte) AND 0x0f = take_bit 4 b" 
  using take_bit_eq_mask [of 4 b] by (simp add: mask_eq_exp_minus_1)

lemma maskByte_take_bit:
  "maskByte b = take_bit (if \<not> bit b 7 then 7 else if \<not> bit b 6 then 6 else 5) b"
  by (simp add: maskByte_def and80 andc0 and7f and3f and1f)

lemma Variant_byte:
  "(let v = drop_bit 4 (b::byte) in
     if v \<le> 7 then VariantNCS
     else if v \<ge> 8 \<and> v \<le> 0x0b then VariantRFC4122
     else if v \<ge> 0x0c \<and> v \<le> 0x0d then VariantMicrosoft
     else VariantFuture) = 
   (if unat b \<le> 0x7F then VariantNCS
      else if unat b \<le> 0xBF then VariantRFC4122
      else if unat b \<le> 0xDF then VariantMicrosoft
      else VariantFuture)"
  unfolding Let_def word_le_nat_alt unat_shr4 by (simp; arith)

text \<open>
  Claim C3.  On a 16-byte buffer \<open>Variant\<close> is decided by the value of byte 8 alone:
  \<open>0x00\<close> to \<open>0x7F\<close> is NCS, \<open>0x80\<close> to \<open>0xBF\<close> is RFC4122, \<open>0xC0\<close> to
  \<open>0xDF\<close> is Microsoft and \<open>0xE0\<close> to \<open>0xFF\<close> is Future; overwriting byte 6,
  which holds the version nibble, does not change the result.
\<close>

theorem Variant_classifies_byte8:
  assumes "length u = 16"
  shows "Variant u = Some (if unat (u ! 8) \<le> 0x7F then VariantNCS
                           else if unat (u ! 8) \<le> 0xBF then VariantRFC4122
                           else if unat (u ! 8) \<le> 0xDF then VariantMicrosoft
                           else VariantFuture)
       \<and> Variant (u[6 := x]) = Variant u"
proof -
  have "index u variantIdx = Some (u ! 8)" using assms by (simp add: variantIdx_def)
  moreover have "index (u[6 := x]) variantIdx = Some (u ! 8)" using assms by (simp add: variantIdx_def)
  ultimately show ?thesis by (simp add: Variant_def Variant_byte)
qed

theorem Variant_classifies_byte8_witness:
  "length exampleUUID = 16 \<and> Variant exampleUUID = Some VariantRFC4122
   \<and> Variant (exampleUUID[6 := 0x41]) = Variant exampleUUID"
proof -
  have l: "length exampleUUID = 16" by (simp add: exampleUUID_def)
  show ?thesis
    using l Variant_classifies_byte8 [OF l, of "0x41"] by (simp add: exampleUUID_def)
qed

text \<open>
  Claim C4.  On a 16-byte buffer \<open>MaskVariant\<close> returns byte 8 with its top bit
  cleared when that bit is 0, with its top two bits cleared when they are \<open>10\<close>,
  and with its top three bits cleared otherwise; every lower bit is the bit of
  byte 8.
\<close>

theorem MaskVariant_clears_high_bits:
  assumes "length u = 16"
  shows "\<exists>r. MaskVariant u = Some r \<and>
           (\<forall>i. bit r i \<longleftrightarrow>
                bit (u ! 8) i \<and>
                i < (if \<not> bit (u ! 8) 7 then 7 else if \<not> bit (u ! 8) 6 then 6 else 5))"
proof -
  have "index u variantIdx = Some (u ! 8)" using assms by (simp add: variantIdx_def)
  then have "MaskVariant u = Some (maskByte (u ! 8))" by (simp add: MaskVariant_def)
  then show ?thesis
    by (auto simp add: maskByte_take_bit bit_take_bit_iff)
qed

theorem MaskVariant_clears_high_bits_witness:
  "length exampleUUID = 16 \<and>
   (\<exists>r. MaskVariant exampleUUID = Some r \<and> (\<forall>i. bit r i \<longleftrightarrow> bit (0xaa :: byte) i \<and> i < 6))"
proof -
  have l: "length exampleUUID = 16" by (simp add: exampleUUID_def)
  show ?thesis
    using l MaskVariant_clears_high_bits [OF l] by (simp add: exampleUUID_def)
qed

section \<open>Signed arithmetic without overflow\<close>

lemma sint64_of_int: "- (2 ^ 63) \<le> k \<Longrightarrow> k < 2 ^ 63 \<Longrightarrow> sint (word_of_int k :: 64 word) = k"
  by (simp add: sint_sbintrunc' signed_take_bit_int_eq_self)

lemma sint32_of_int: "- (2 ^ 31) \<le> k \<Longrightarrow> k < 2 ^ 31 \<Longrightarrow> sint (word_of_int k :: 32 word) = k"
  by (simp add: sint_sbintrunc' signed_take_bit_int_eq_self)

lemma sint64_add: "- (2 ^ 63) \<le> sint a + sint b \<Longrightarrow> sint a + sint b < 2 ^ 63 \<Longrightarrow> sint (a + b :: 64 word) = sint a + sint b"
  by (simp add: sint_word_add signed_take_bit_int_eq_self)

lemma sint32_add: "- (2 ^ 31) \<le> sint a + sint b \<Longrightarrow> sint a + sint b < 2 ^ 31 \<Longrightarrow> sint (a + b :: 32 word) = sint a + sint b"
  by (simp add: sint_word_add signed_take_bit_int_eq_self)

lemma sint32_diff: "- (2 ^ 31) \<le> sint a - sint b \<Longrightarrow> sint a - sint b < 2 ^ 31 \<Longrightarrow> sint (a - b :: 32 word) = sint a - sint b"
  by (simp add: sint_word_diff signed_take_bit_int_eq_self)

lemma sint64_diff: "- (2 ^ 63) \<le> sint a - sint b \<Longrightarrow> sint a - sint b < 2 ^ 63 \<Longrightarrow> sint (a - b :: 64 word) = sint a - sint b"
  by (simp add: sint_word_diff signed_take_bit_int_eq_self)

lemma sint64_mult: "- (2 ^ 63) \<le> sint a * sint b \<Longrightarrow> sint a * sint b < 2 ^ 63 \<Longrightarrow> sint (a * b :: 64 word) = sint a * sint b"
  by (simp add: sint_word_mult signed_take_bit_int_eq_self)

lemma sdiv_nonneg: "0 \<le> (a::int) \<Longrightarrow> 0 < b \<Longrightarrow> a sdiv b = a div b"
  by (auto simp add: signed_divide_int_def sgn_if)
lemma smod_nonneg: "0 \<le> (a::int) \<Longrightarrow> 0 < b \<Longrightarrow> a smod b = a mod b"
  by (auto simp add: signed_modulo_int_def sgn_if)


lemma addSec_exact:
  assumes "0 \<le> sint dd" "0 \<le> sint (ext t)" "sint (ext t) + sint dd < 2 ^ 63"
  shows "addSec t dd = t\<lparr>ext := ext t + dd\<rparr>" and "sint (ext t + dd) = sint (ext t) + sint dd"
proof -
  show s: "sint (ext t + dd) = sint (ext t) + sint dd"
    using assms by (intro sint64_add) simp_all
  have "(ext t <s ext t + dd) = (0 <s dd)"
    using assms by (simp add: word_sless_alt s)
  then show "addSec t dd = t\<lparr>ext := ext t + dd\<rparr>"
    by (simp add: addSec_def)
qed

lemma Add_exact:
  assumes d: "0 \<le> sint d"
    and e: "0 \<le> sint (ext t)"
    and n: "0 \<le> sint (nsec t)" "sint (nsec t) < 1000000000"
    and b: "sinceYear1 t + sint d < 2 ^ 90"
  shows "sinceYear1 (Add t d) = sinceYear1 t + sint d
       \<and> 0 \<le> sint (ext (Add t d))
       \<and> 0 \<le> sint (nsec (Add t d)) \<and> sint (nsec (Add t d)) < 1000000000"
proof -
  define D where "D = sint d"
  define q where "q = D div 1000000000"
  define r where "r = D mod 1000000000"
  define E where "E = sint (ext t)"
  define N where "N = sint (nsec t)"
  have D0: "0 \<le> D" using d by (simp add: D_def)
  have Dq: "D = q * 1000000000 + r" by (simp add: q_def r_def)
  have r: "0 \<le> r" "r < 1000000000" by (simp_all add: r_def)
  have q0: "0 \<le> q" using D0 by (simp add: q_def pos_imp_zdiv_nonneg_iff)
  have b': "E * 1000000000 + N + D < 2 ^ 90"
    using b by (simp add: sinceYear1_def E_def N_def D_def)
  have E0: "0 \<le> E" and N0: "0 \<le> N" and N1: "N < 1000000000"
    using e n by (simp_all add: E_def N_def)
  have Dub: "D < 2 ^ 63" using sint_lt [of d] by (simp add: D_def)
  have qub: "q < 9223372037" using Dub D0 by (simp add: q_def) 
  have Eub: "E < 2 ^ 63" using sint_lt [of "ext t"] by (simp add: E_def)
  have Eq: "E + q + 1 < 2 ^ 63"
  proof -
    have "(E + q) * 1000000000 \<le> E * 1000000000 + N + D"
      using N0 r Dq by (simp add: algebra_simps)
    then have "(E + q) * 1000000000 < 2 ^ 90" using b' by linarith
    then show ?thesis by simp
  qed
  have sd: "sint d sdiv 1000000000 = q" "sint d smod 1000000000 = r"
    using D0 by (simp_all add: sdiv_nonneg smod_nonneg q_def r_def D_def)
  have sq: "sint (word_of_int q :: 64 word) = q"
    using q0 qub by (intro sint64_of_int) simp_all
  have sr: "sint (word_of_int r :: 32 word) = r"
    using r by (intro sint32_of_int) simp_all
  define ns where "ns = nsec t + (word_of_int r :: 32 word)"
  have sns: "sint ns = N + r"
    unfolding ns_def using N0 N1 r sr by (subst sint32_add) (simp_all add: N_def)
  have dq: "(word_of_int (sint d sdiv 1000000000) :: 64 word) = word_of_int q"
    and dr: "(word_of_int (sint d smod 1000000000) :: 32 word) = word_of_int r"
    by (simp_all add: sd)
  show ?thesis
  proof (cases "1000000000 \<le> N + r")
    case True
    then have c: "1000000000 \<le>s ns" by (simp add: word_sle_eq sns)
    define t1 where "t1 = t\<lparr>nsec := ns - 1000000000\<rparr>"
    have A: "Add t d = addSec t1 (word_of_int q + 1)"
      using c by (simp add: Add_def Let_def dq dr ns_def [symmetric] t1_def)
    have s1: "sint (word_of_int q + 1 :: 64 word) = q + 1"
      using q0 qub sq by (subst sint64_add) simp_all
    have sn: "sint (ns - 1000000000) = N + r - 1000000000"
      using True N1 r sns by (subst sint32_diff) simp_all
    have e1: "ext t1 = ext t" and n1: "nsec t1 = ns - 1000000000" by (simp_all add: t1_def)
    have B: "addSec t1 (word_of_int q + 1) = t1\<lparr>ext := ext t1 + (word_of_int q + 1)\<rparr>"
      and C: "sint (ext t1 + (word_of_int q + 1)) = E + (q + 1)"
      using addSec_exact [of "word_of_int q + 1" t1] q0 E0 Eq by (simp_all add: s1 e1 E_def)
    have R: "sint (ext (Add t d)) = E + (q + 1)" "sint (nsec (Add t d)) = N + r - 1000000000"
      by (simp_all add: A B C n1 sn)
    have S: "sinceYear1 t + sint d = E * 1000000000 + N + D"
      by (simp add: sinceYear1_def E_def N_def D_def)
    show ?thesis
      unfolding S unfolding sinceYear1_def R
      using True N1 r Dq E0 q0 by (simp add: algebra_simps)
  next
    case False
    then have c: "\<not> 1000000000 \<le>s ns" "\<not> ns <s 0"
      using N0 r by (simp_all add: word_sle_eq word_sless_alt sns)
    define t1 where "t1 = t\<lparr>nsec := ns\<rparr>"
    have A: "Add t d = addSec t1 (word_of_int q)"
      using c by (simp add: Add_def Let_def dq dr ns_def [symmetric] t1_def)
    have e1: "ext t1 = ext t" and n1: "nsec t1 = ns" by (simp_all add: t1_def)
    have B: "addSec t1 (word_of_int q) = t1\<lparr>ext := ext t1 + word_of_int q\<rparr>"
      and C: "sint (ext t1 + word_of_int q) = E + q"
      using addSec_exact [of "word_of_int q" t1] q0 E0 Eq by (simp_all add: sq e1 E_def)
    have R: "sint (ext (Add t d)) = E + q" "sint (nsec (Add t d)) = N + r"
      by (simp_all add: A B C n1 sns)
    have S: "sinceYear1 t + sint d = E * 1000000000 + N + D"
      by (simp add: sinceYear1_def E_def N_def D_def)
    show ?thesis
      unfolding S unfolding sinceYear1_def R
      using False N0 r Dq E0 q0 by (simp add: algebra_simps)
  qed
qed

lemma UUIDTimeBase_days: "sint (ext UUIDTimeBase) = daysBefore 1582 273 15 * 86400"
  by (simp add: UUIDTimeBase_def daysBefore_def)

lemma MaxDurationUnit_val: "sint MaxDurationUnit = 92233720368547758"
  by (simp add: MaxDurationUnit_def)

lemma chunk_val: "sint (MaxDurationUnit * UUITTimeUnit) = 9223372036854775800"
  by (simp add: MaxDurationUnit_def UUITTimeUnit_def)

lemma addTicks_exact_gen:
  "0 \<le> sint (ext t) \<Longrightarrow> 0 \<le> sint (nsec t) \<Longrightarrow> sint (nsec t) < 1000000000 \<Longrightarrow>
   sinceYear1 t + 100 * sint tu < 2 ^ 90 \<Longrightarrow>
   sinceYear1 (addTicks t tu) = sinceYear1 t + 100 * (if 0 \<le> sint tu then sint tu else 0)
   \<and> 0 \<le> sint (ext (addTicks t tu))
   \<and> 0 \<le> sint (nsec (addTicks t tu)) \<and> sint (nsec (addTicks t tu)) < 1000000000"
proof (induction t tu rule: addTicks.induct)
  case (1 t tu)
  show ?case
  proof (cases "0 <s tu")
    case False
    then have "addTicks t tu = t" by (simp add: addTicks.simps [of t tu])
    moreover from False have "sint tu \<le> 0" by (simp add: word_sless_alt)
    ultimately show ?thesis using "1.prems" by auto
  next
    case pos: True
    then have p: "0 < sint tu" by (simp add: word_sless_alt)
    show ?thesis
    proof (cases "MaxDurationUnit <s tu")
      case True
      then have big: "92233720368547758 < sint tu" by (simp add: word_sless_alt MaxDurationUnit_val)
      define t1 where "t1 = Add t (MaxDurationUnit * UUITTimeUnit)"
      have ub: "sint tu < 2 ^ 63" using sint_lt [of tu] by simp
      have st: "sint (tu - MaxDurationUnit) = sint tu - 92233720368547758"
        using big ub by (subst sint64_diff) (simp_all add: MaxDurationUnit_val)
      have A: "sinceYear1 t1 = sinceYear1 t + 9223372036854775800
         \<and> 0 \<le> sint (ext t1) \<and> 0 \<le> sint (nsec t1) \<and> sint (nsec t1) < 1000000000"
        unfolding t1_def
        using Add_exact [of "MaxDurationUnit * UUITTimeUnit" t] "1.prems" big
        by (simp add: chunk_val)
      have U: "addTicks t tu = addTicks t1 (tu - MaxDurationUnit)"
        using pos True by (simp add: addTicks.simps [of t tu] t1_def)
      have IH: "sinceYear1 (addTicks t1 (tu - MaxDurationUnit)) =
           sinceYear1 t1 + 100 * (if 0 \<le> sint (tu - MaxDurationUnit) then sint (tu - MaxDurationUnit) else 0)
         \<and> 0 \<le> sint (ext (addTicks t1 (tu - MaxDurationUnit)))
         \<and> 0 \<le> sint (nsec (addTicks t1 (tu - MaxDurationUnit)))
         \<and> sint (nsec (addTicks t1 (tu - MaxDurationUnit))) < 1000000000"
        unfolding t1_def
        apply (rule "1.IH"(1) [OF pos True])
        using A "1.prems" big by (simp_all add: t1_def [symmetric] st)
      show ?thesis unfolding U using IH A big p by (simp add: st)
    next
      case False
      then have small: "sint tu \<le> 92233720368547758" by (simp add: word_sless_alt MaxDurationUnit_val)
      define t1 where "t1 = Add t (tu * UUITTimeUnit)"
      have sm: "sint (tu * UUITTimeUnit) = sint tu * 100"
        using small p by (subst sint64_mult) (simp_all add: UUITTimeUnit_def)
      have A: "sinceYear1 t1 = sinceYear1 t + 100 * sint tu
         \<and> 0 \<le> sint (ext t1) \<and> 0 \<le> sint (nsec t1) \<and> sint (nsec t1) < 1000000000"
        unfolding t1_def
        using Add_exact [of "tu * UUITTimeUnit" t] "1.prems" p
        by (simp add: sm)
      have U: "addTicks t tu = t1"
        using pos False by (simp add: addTicks.simps [of t tu] addTicks.simps [of _ 0] t1_def)
      show ?thesis unfolding U using A p by simp
    qed
  qed
qed

section \<open>The values of the time fields\<close>

lemma unat_byte_lt: "unat (b::byte) < 256"
  using unsigned_less [of b, where 'a = nat] by simp

lemma unat_ucast_8_16: "unat (ucast (b::byte) :: 16 word) = unat b"
  using unat_byte_lt [of b] by (simp add: unsigned_ucast_eq take_bit_eq_mod)

lemma unat_ucast_8_32: "unat (ucast (b::byte) :: 32 word) = unat b"
  using unat_byte_lt [of b] by (simp add: unsigned_ucast_eq take_bit_eq_mod)

lemma unat_and0f: "unat ((b::byte) AND 0x0f) = unat b mod 16"
  by (simp add: and0f take_bit_eq_mod unat_mod)

lemma timeHigh_le_val:
  "unat (ucast ((b0::byte) AND 0x0f) + push_bit 4 (ucast (b1::byte)) :: 16 word) = unat b0 mod 16 + 16 * unat b1"
proof -
  have "unat b0 mod 16 < 16" by simp
  then show ?thesis
    using unat_byte_lt [of b1] 
    by (simp add: unat_word_ariths push_bit_eq_mult unat_ucast_8_16 unat_and0f)
qed

lemma timeHigh_be_val:
  "unat (push_bit 8 (ucast ((b0::byte) AND 0x0f)) + ucast (b1::byte) :: 16 word) = 256 * (unat b0 mod 16) + unat b1"
proof -
  have "unat b0 mod 16 < 16" by simp
  then show ?thesis
    using unat_byte_lt [of b1] 
    by (simp add: unat_word_ariths push_bit_eq_mult unat_ucast_8_16 unat_and0f)
qed

lemma timeMid_le_val:
  "unat (ucast (b0::byte) + push_bit 8 (ucast (b1::byte)) :: 16 word) = unat b0 + 256 * unat b1"
  using unat_byte_lt [of b1] unat_byte_lt [of b0]
  by (simp add: unat_word_ariths push_bit_eq_mult unat_ucast_8_16)

lemma timeMid_be_val:
  "unat (push_bit 8 (ucast (b0::byte)) + ucast (b1::byte) :: 16 word) = 256 * unat b0 + unat b1"
  using unat_byte_lt [of b1] unat_byte_lt [of b0]
  by (simp add: unat_word_ariths push_bit_eq_mult unat_ucast_8_16)

lemma timeLow_16:
  assumes "length u = 16"
  shows "timeLow u True = Some (ucast (u ! 0) + ucast (u ! 1) * 0x100 + ucast (u ! 2) * 0x10000 + ucast (u ! 3) * 0x1000000)"
    and "timeLow u False = Some (push_bit 8 (push_bit 8 (push_bit 8 (ucast (u ! 0)) + ucast (u ! 1)) + ucast (u ! 2)) + ucast (u ! 3))"
  using assms by (simp_all add: timeLow_def secondFieldIdx_def Let_def numeral_2_eq_2 numeral_3_eq_3)

lemma timeLow_le_val:
  "unat (ucast (b0::byte) + ucast (b1::byte) * 0x100 + ucast (b2::byte) * 0x10000 + ucast (b3::byte) * 0x1000000 :: 32 word)
     = unat b0 + 256 * unat b1 + 65536 * unat b2 + 16777216 * unat b3"
  using unat_byte_lt [of b0] unat_byte_lt [of b1] unat_byte_lt [of b2] unat_byte_lt [of b3]
  by (simp add: unat_word_ariths unat_ucast_8_32)

lemma timeLow_be_val:
  "unat (push_bit 8 (push_bit 8 (push_bit 8 (ucast (b0::byte)) + ucast (b1::byte)) + ucast (b2::byte)) + ucast (b3::byte) :: 32 word)
     = 16777216 * unat b0 + 65536 * unat b1 + 256 * unat b2 + unat b3"
  using unat_byte_lt [of b0] unat_byte_lt [of b1] unat_byte_lt [of b2] unat_byte_lt [of b3]
  by (simp add: unat_word_ariths unat_ucast_8_32 push_bit_eq_mult)

lemma unat_ucast_32_64: "unat (ucast (w::32 word) :: 64 word) = unat w"
  using unsigned_less [of w, where 'a = nat] by (simp add: unsigned_ucast_eq take_bit_eq_mod)

lemma unat_ucast_16_64: "unat (ucast (w::16 word) :: 64 word) = unat w"
  using unsigned_less [of w, where 'a = nat] by (simp add: unsigned_ucast_eq take_bit_eq_mod)

lemma sint64_small:
  assumes "unat (w :: 64 word) < 2 ^ 63"
  shows "sint w = int (unat w)"
proof -
  have 1: "sint w = signed_take_bit (LENGTH(64) - Suc 0) (uint w)" by (rule sint_uint)
  from assms have "int (unat w) < int (2 ^ 63)" by (simp only: of_nat_less_iff)
  then have 3: "uint w < 2 ^ 63" by simp
  have 4: "- (2 ^ 63) \<le> uint w"
    by (rule order_trans [OF _ uint_ge_0]) simp
  have "signed_take_bit 63 (uint w) = uint w"
    using 3 4 by (intro signed_take_bit_int_eq_self)
  then show ?thesis using 1 by simp
qed

lemma unat_timeUnits_high:
  assumes "unat hi < 4096"
  shows "unat (push_bit 32 (ucast (mid :: 16 word)) + push_bit 48 (ucast (hi :: 16 word)) :: 64 word)
           = unat mid * 2 ^ 32 + unat hi * 2 ^ 48"
  using assms unsigned_less [of mid, where 'a = nat]
  by (simp add: unat_word_ariths push_bit_eq_mult unat_ucast_16_64)

lemma unat_timeUnits_all:
  assumes "unat hi < 4096"
  shows "unat (ucast (lo :: 32 word) + push_bit 32 (ucast (mid :: 16 word)) + push_bit 48 (ucast (hi :: 16 word)) :: 64 word)
           = unat lo + unat mid * 2 ^ 32 + unat hi * 2 ^ 48"
  using assms unsigned_less [of mid, where 'a = nat] unsigned_less [of lo, where 'a = nat]
  by (simp add: unat_word_ariths push_bit_eq_mult unat_ucast_16_64 unat_ucast_32_64)

lemma timeUnits_v1:
  assumes "unat hi < 4096"
  shows "sint (timeUnits 1 lo mid hi) = int (unat lo + unat mid * 2 ^ 32 + unat hi * 2 ^ 48)"
    and "unat lo + unat mid * 2 ^ 32 + unat hi * 2 ^ 48 < 2 ^ 60"
proof -
  show b: "unat lo + unat mid * 2 ^ 32 + unat hi * 2 ^ 48 < 2 ^ 60"
    using assms unsigned_less [of mid, where 'a = nat] unsigned_less [of lo, where 'a = nat] by simp
  have "unat (timeUnits 1 lo mid hi) = unat lo + unat mid * 2 ^ 32 + unat hi * 2 ^ 48"
    using assms by (simp add: timeUnits_def unat_timeUnits_all)
  with b show "sint (timeUnits 1 lo mid hi) = int (unat lo + unat mid * 2 ^ 32 + unat hi * 2 ^ 48)"
    by (subst sint64_small) simp_all
qed

lemma timeUnits_v2:
  assumes "unat hi < 4096"
  shows "sint (timeUnits 2 lo mid hi) = int (unat mid * 2 ^ 32 + unat hi * 2 ^ 48)"
    and "unat mid * 2 ^ 32 + unat hi * 2 ^ 48 < 2 ^ 60"
proof -
  show b: "unat mid * 2 ^ 32 + unat hi * 2 ^ 48 < 2 ^ 60"
    using assms unsigned_less [of mid, where 'a = nat] by simp
  have "unat (timeUnits 2 lo mid hi) = unat mid * 2 ^ 32 + unat hi * 2 ^ 48"
    using assms by (simp add: timeUnits_def unat_timeUnits_high)
  with b show "sint (timeUnits 2 lo mid hi) = int (unat mid * 2 ^ 32 + unat hi * 2 ^ 48)"
    by (subst sint64_small) simp_all
qed

lemma timeHigh_16:
  assumes "length u = 16"
  shows "\<exists>hi. timeHigh u le = Some hi \<and> unat hi < 4096
          \<and> unat hi = (if le then unat (u ! 6) mod 16 + 16 * unat (u ! 7)
                        else 256 * (unat (u ! 6) mod 16) + unat (u ! 7))"
proof -
  have m: "unat (u ! 6) mod 16 < 16" by simp
  have b: "unat (u ! 7) < 256" by (rule unat_byte_lt)
  show ?thesis
  proof (cases le)
    case True
    have "timeHigh u True = Some (ucast (u ! 6 AND 0x0f) + push_bit 4 (ucast (u ! 7)))"
      using assms by (simp add: timeHigh_def versionIdx_def)
    moreover have "unat (u ! 6) mod 16 + 16 * unat (u ! 7) < 4096" using m b by linarith
    ultimately show ?thesis using True by (simp add: timeHigh_le_val)
  next
    case False
    have "timeHigh u False = Some (push_bit 8 (ucast (u ! 6 AND 0x0f)) + ucast (u ! 7))"
      using assms by (simp add: timeHigh_def versionIdx_def)
    moreover have "256 * (unat (u ! 6) mod 16) + unat (u ! 7) < 4096" using m b by linarith
    ultimately show ?thesis using False by (simp add: timeHigh_be_val)
  qed
qed

lemma timeMid_16:
  assumes "length u = 16"
  shows "\<exists>mid. timeMid u le = Some mid
          \<and> unat mid = (if le then unat (u ! 4) + 256 * unat (u ! 5)
                        else 256 * unat (u ! 4) + unat (u ! 5))"
  using assms by (simp add: timeMid_def secondFieldIdx_def timeMid_le_val timeMid_be_val)

lemma timeLow_16_ex:
  assumes "length u = 16"
  shows "\<exists>lo. timeLow u le = Some lo
          \<and> unat lo = (if le then unat (u ! 0) + 256 * unat (u ! 1) + 65536 * unat (u ! 2) + 16777216 * unat (u ! 3)
                        else 16777216 * unat (u ! 0) + 65536 * unat (u ! 1) + 256 * unat (u ! 2) + unat (u ! 3))"
proof (cases le)
  case True
  define X :: "32 word" where
    "X = ucast (u ! 0) + ucast (u ! 1) * 0x100 + ucast (u ! 2) * 0x10000 + ucast (u ! 3) * 0x1000000"
  have 1: "timeLow u le = Some X"
    using True timeLow_16 (1) [OF assms] by (simp only: X_def)
  have 2: "unat X = unat (u ! 0) + 256 * unat (u ! 1) + 65536 * unat (u ! 2) + 16777216 * unat (u ! 3)"
    unfolding X_def by (rule timeLow_le_val)
  show ?thesis using 1 2 True by simp
next
  case False
  define X :: "32 word" where
    "X = push_bit 8 (push_bit 8 (push_bit 8 (ucast (u ! 0)) + ucast (u ! 1)) + ucast (u ! 2)) + ucast (u ! 3)"
  have 1: "timeLow u le = Some X"
    using False timeLow_16 (2) [OF assms] by (simp only: X_def)
  have 2: "unat X = 16777216 * unat (u ! 0) + 65536 * unat (u ! 1) + 256 * unat (u ! 2) + unat (u ! 3)"
    unfolding X_def by (rule timeLow_be_val)
  show ?thesis using 1 2 False by simp
qed

lemma TimeInfo_16:
  assumes "length u = 16" and "timeLow u le = Some lo" and "timeMid u le = Some mid"
    and "timeHigh u le = Some hi" and "Version u = Some v"
  shows "TimeInfo u le =
     Some (addTicks UUIDTimeBase (timeUnits v lo mid hi),
           (if v = 1 then push_bit 8 (uint (maskByte (u ! 8))) + uint (u ! 9) else uint (maskByte (u ! 8))),
           (if v = 2 then uint (u ! 9) else 0),
           (if v = 2 then uint lo else 0))"
  using assms by (simp add: TimeInfo_def MaskVariant_def variantIdx_def Let_def)

lemma addTicks_UUIDTimeBase:
  assumes "0 \<le> sint tu" "sint tu < 2 ^ 60"
  shows "sint (ext (addTicks UUIDTimeBase tu)) = 49916304000 + (100 * sint tu) div 1000000000"
    and "sint (nsec (addTicks UUIDTimeBase tu)) = (100 * sint tu) mod 1000000000"
proof -
  define t where "t = addTicks UUIDTimeBase tu"
  have base: "sint (ext UUIDTimeBase) = 49916304000" "sint (nsec UUIDTimeBase) = 0"
    "sinceYear1 UUIDTimeBase = 49916304000000000000"
    by (simp_all add: UUIDTimeBase_def sinceYear1_def)
  have "sinceYear1 UUIDTimeBase + 100 * sint tu < 2 ^ 90"
    using assms by (simp add: base)
  from addTicks_exact_gen [of UUIDTimeBase tu, OF _ _ _ this]
  have s: "sinceYear1 t = 49916304000000000000 + 100 * sint tu"
    and n: "0 \<le> sint (nsec t)" "sint (nsec t) < 1000000000"
    using assms by (simp_all add: base t_def)
  define E where "E = sint (ext t)"
  define N where "N = sint (nsec t)"
  define T where "T = 100 * sint tu"
  have eq: "T = (E - 49916304000) * 1000000000 + N"
    using s by (simp add: sinceYear1_def E_def N_def T_def algebra_simps)
  have N: "0 \<le> N" "N < 1000000000" using n by (simp_all add: N_def)
  have "T mod 1000000000 = N mod 1000000000"
    unfolding eq by (rule mod_mult_self3)
  moreover have "T div 1000000000 = (E - 49916304000) + N div 1000000000"
    unfolding eq by (rule div_mult_self3) simp
  ultimately have "T div 1000000000 = E - 49916304000" "T mod 1000000000 = N"
    using N by simp_all
  then show "sint (ext (addTicks UUIDTimeBase tu)) = 49916304000 + (100 * sint tu) div 1000000000"
    and "sint (nsec (addTicks UUIDTimeBase tu)) = (100 * sint tu) mod 1000000000"
    by (simp_all add: E_def N_def T_def t_def)
qed

section \<open>Properties of the timestamp reconstructor\<close>

lemma sint_zero_iff: "sint (w :: 64 word) = 0 \<longleftrightarrow> w = 0"
  by (rule signed_eq_0_iff)

text \<open>
  Claim C1.  For a 16-byte buffer of version 1, read in either byte order, the tick
  count \<open>timeLow + timeMid * 2^32 + timeHigh * 2^48\<close> lies in \<open>[0, 2^60)\<close> and the time
  that \<open>TimeInfo\<close> returns is the epoch 1582-10-15T00:00:00Z plus exactly 100 ns a tick:
  whole seconds and nanoseconds are the quotient and remainder of \<open>100 * ticks\<close> by
  \<open>10^9\<close>, no signed 64-bit or 32-bit operation on the way wraps or saturates, and
  a tick count of 0 gives the epoch itself.  The conversion loop is exact on
  every tick count \<open>n\<close> in \<open>[0, 2^60)\<close>.
\<close>

theorem TimeInfo_timestamp_exact:
  assumes "length u = 16" and "Version u = Some 1" and "0 \<le> n" and "n < 2 ^ 60"
  shows "(\<exists>t c d l lo mid hi.
            TimeInfo u le = Some (t, c, d, l) \<and>
            timeLow u le = Some lo \<and> timeMid u le = Some mid \<and> timeHigh u le = Some hi \<and>
            0 \<le> ticksOf lo mid hi \<and> ticksOf lo mid hi < 2 ^ 60 \<and>
            sint (ext t) = sint (ext UUIDTimeBase) + (100 * ticksOf lo mid hi) div 1000000000 \<and>
            sint (nsec t) = (100 * ticksOf lo mid hi) mod 1000000000 \<and>
            (ticksOf lo mid hi = 0 \<longrightarrow> t = UUIDTimeBase))
       \<and> sint (ext (addTicks UUIDTimeBase (word_of_int n))) =
             sint (ext UUIDTimeBase) + (100 * n) div 1000000000
       \<and> sint (nsec (addTicks UUIDTimeBase (word_of_int n))) = (100 * n) mod 1000000000"
proof -
  have base: "sint (ext UUIDTimeBase) = 49916304000"
    by (simp add: UUIDTimeBase_def)
  obtain lo where lo: "timeLow u le = Some lo"
    using timeLow_16_ex [OF assms(1), of le] by blast
  obtain mid where mid: "timeMid u le = Some mid"
    using timeMid_16 [OF assms(1), of le] by blast
  obtain hi where hi: "timeHigh u le = Some hi" and hib: "unat hi < 4096"
    using timeHigh_16 [OF assms(1), of le] by blast
  define tu where "tu = timeUnits 1 lo mid hi"
  define t where "t = addTicks UUIDTimeBase tu"
  have T: "TimeInfo u le =
     Some (t, push_bit 8 (uint (maskByte (u ! 8))) + uint (u ! 9), 0, 0)"
    using TimeInfo_16 [OF assms(1) lo mid hi assms(2)] by (simp add: t_def tu_def)
  have tk: "sint tu = ticksOf lo mid hi"
    unfolding tu_def ticksOf_def timeUnits_v1 (1) [OF hib] by simp
  have tb: "ticksOf lo mid hi < 2 ^ 60"
  proof -
    have "int (unat lo + unat mid * 2 ^ 32 + unat hi * 2 ^ 48) < int (2 ^ 60)"
      using timeUnits_v1 (2) [OF hib, of lo mid] by (simp only: of_nat_less_iff)
    then show ?thesis by (simp add: ticksOf_def)
  qed
  have t0: "0 \<le> ticksOf lo mid hi"
    by (simp add: ticksOf_def)
  have e: "sint (ext t) = 49916304000 + (100 * ticksOf lo mid hi) div 1000000000"
    and ns: "sint (nsec t) = (100 * ticksOf lo mid hi) mod 1000000000"
    using addTicks_UUIDTimeBase [of tu] t0 tb by (simp_all add: tk t_def)
  have z: "ticksOf lo mid hi = 0 \<longrightarrow> t = UUIDTimeBase"
  proof
    assume "ticksOf lo mid hi = 0"
    then have "tu = 0" using tk by (simp add: sint_zero_iff)
    then show "t = UUIDTimeBase" by (simp add: t_def addTicks.simps [of _ 0])
  qed
  have sn: "sint (word_of_int n :: 64 word) = n"
    using assms(3,4) by (intro sint64_of_int) simp_all
  have n1: "sint (ext (addTicks UUIDTimeBase (word_of_int n))) = 49916304000 + (100 * n) div 1000000000"
    and n2: "sint (nsec (addTicks UUIDTimeBase (word_of_int n))) = (100 * n) mod 1000000000"
    using addTicks_UUIDTimeBase [of "word_of_int n"] assms(3,4) by (simp_all add: sn)
  show ?thesis
    using T lo mid hi t0 tb e ns z n1 n2 by (simp add: base)
qed


lemma exampleUUID_fields:
  "length exampleUUID = 16"
  "Version exampleUUID = Some 1"
  "timeLow exampleUUID False = Some 0x8be4df61"
  "timeMid exampleUUID False = Some 0x93ca"
  "timeHigh exampleUUID False = Some 0x1d2"
  by (simp_all add: exampleUUID_def Version_def timeLow_def timeMid_def timeHigh_def index_def
      idx_defs Let_def)

theorem TimeInfo_timestamp_exact_witness:
  "length exampleUUID = 16 \<and> Version exampleUUID = Some 1
   \<and> (0::int) \<le> 2 ^ 60 - 1 \<and> (2 ^ 60 - 1 :: int) < 2 ^ 60
   \<and> (\<exists>t c d l. TimeInfo exampleUUID False = Some (t, c, d, l)
          \<and> sint (ext t) = 63049287728 \<and> sint (nsec t) = 687497700)
   \<and> sint (ext (addTicks UUIDTimeBase (word_of_int (2 ^ 60 - 1)))) = 165208454460
   \<and> sint (nsec (addTicks UUIDTimeBase (word_of_int (2 ^ 60 - 1)))) = 684697500"
proof -
  have a: "(0::int) \<le> 2 ^ 60 - 1" and b: "(2 ^ 60 - 1 :: int) < 2 ^ 60" by simp_all
  have base: "sint (ext UUIDTimeBase) = 49916304000"
    by (simp add: UUIDTimeBase_def)
  show ?thesis
    using TimeInfo_timestamp_exact [OF exampleUUID_fields(1,2) a b, of False]
    by (auto simp add: exampleUUID_fields ticksOf_def base)
qed

text \<open>
  Claim C5 as stated fails in the little-endian case.  On the version-1 buffer
  \<open>littleEndianExample\<close> (byte 6 is \<open>0x10\<close>, byte 7 is \<open>0x01\<close>) the source computes
  time high 16: byte 7 has the place value \<open>2^4\<close>, not \<open>2^8\<close>.
\<close>

theorem timeHigh_bytewise_counterexample:
  "length littleEndianExample = 16 \<and> Version littleEndianExample = Some 1
   \<and> timeHigh littleEndianExample True = Some 16
   \<and> timeHigh_bytewise littleEndianExample True = 256
   \<and> timeHigh littleEndianExample True \<noteq> Some (timeHigh_bytewise littleEndianExample True)"
  by (simp add: littleEndianExample_def timeHigh_def timeHigh_bytewise_def Version_def index_def idx_defs)

text \<open>
  Claim C5, amended.  On a 16-byte buffer \<open>TimeInfo\<close> reads time high from bytes 6 and
  7 with the version nibble of byte 6 masked out, as a number below \<open>2^12\<close>.  When
  \<open>littleEndian\<close> is true the low nibble of byte 6 gives the low 4 bits and byte 7
  the next 8 bits, at place value \<open>2^4\<close>; when it is false the low nibble of byte 6
  has place value \<open>2^8\<close> and byte 7 follows it, most significant first.
\<close>

theorem timeHigh_twelve_bits:
  assumes "length u = 16"
  shows "\<exists>hi. timeHigh u le = Some hi \<and> unat hi < 2 ^ 12
          \<and> unat hi = (if le then unat (u ! 6) mod 16 + 2 ^ 4 * unat (u ! 7)
                        else 2 ^ 8 * (unat (u ! 6) mod 16) + unat (u ! 7))
          \<and> (\<not> le \<longrightarrow> hi = timeHigh_bytewise u le)"
proof -
  obtain hi where hi: "timeHigh u le = Some hi" "unat hi < 4096"
    "unat hi = (if le then unat (u ! 6) mod 16 + 16 * unat (u ! 7)
                        else 256 * (unat (u ! 6) mod 16) + unat (u ! 7))"
    using timeHigh_16 [OF assms, of le] by blast
  have "\<not> le \<longrightarrow> hi = timeHigh_bytewise u le"
    using hi(1) assms by (auto simp add: timeHigh_def timeHigh_bytewise_def versionIdx_def)
  with hi show ?thesis by simp
qed

theorem timeHigh_twelve_bits_witness:
  "length littleEndianExample = 16 \<and>
   (\<exists>hi. timeHigh littleEndianExample True = Some hi \<and> unat hi < 2 ^ 12 \<and> unat hi = 16)"
proof -
  have l: "length littleEndianExample = 16" by (simp add: littleEndianExample_def)
  show ?thesis
    using l timeHigh_twelve_bits [OF l, of True] by (auto simp add: littleEndianExample_def)
qed

text \<open>
  Claim C6.  On a 16-byte buffer of version 2, \<open>TimeInfo\<close> leaves time low out of the
  tick count, which is \<open>timeMid * 2^32 + timeHigh * 2^48\<close>, returns the decoded time
  low as local id, byte 9 as domain and the masked byte 8 alone as clock sequence.
  On a buffer of version 1 the clock sequence is the masked byte 8 shifted left by
  8 bits plus byte 9, and domain and local id are 0.
\<close>

theorem TimeInfo_version_fields:
  assumes "length u = 16"
  shows "(Version u = Some 2 \<longrightarrow>
           (\<exists>t lo mid hi m.
              timeLow u le = Some lo \<and> timeMid u le = Some mid \<and> timeHigh u le = Some hi \<and>
              MaskVariant u = Some m \<and>
              TimeInfo u le = Some (t, uint m, uint (u ! 9), uint lo) \<and>
              t = addTicks UUIDTimeBase (timeUnits 2 lo mid hi) \<and>
              sint (timeUnits 2 lo mid hi) = uint mid * 2 ^ 32 + uint hi * 2 ^ 48 \<and>
              sint (ext t) = sint (ext UUIDTimeBase)
                 + (100 * (uint mid * 2 ^ 32 + uint hi * 2 ^ 48)) div 1000000000 \<and>
              sint (nsec t) = (100 * (uint mid * 2 ^ 32 + uint hi * 2 ^ 48)) mod 1000000000))
       \<and> (Version u = Some 1 \<longrightarrow>
           (\<exists>t m. MaskVariant u = Some m \<and>
              TimeInfo u le = Some (t, uint m * 2 ^ 8 + uint (u ! 9), 0, 0)))"
proof -
  have base: "sint (ext UUIDTimeBase) = 49916304000"
    by (simp add: UUIDTimeBase_def)
  obtain lo where lo: "timeLow u le = Some lo"
    using timeLow_16_ex [OF assms, of le] by blast
  obtain mid where mid: "timeMid u le = Some mid"
    using timeMid_16 [OF assms, of le] by blast
  obtain hi where hi: "timeHigh u le = Some hi" and hib: "unat hi < 4096"
    using timeHigh_16 [OF assms, of le] by blast
  have m: "MaskVariant u = Some (maskByte (u ! 8))"
    using assms by (simp add: MaskVariant_def variantIdx_def)
  have v2: ?thesis if v: "Version u = Some 2" 
  proof -
    define tu where "tu = timeUnits 2 lo mid hi"
    have tk: "sint tu = uint mid * 2 ^ 32 + uint hi * 2 ^ 48"
      unfolding tu_def timeUnits_v2 (1) [OF hib] by simp
    have "int (unat mid * 2 ^ 32 + unat hi * 2 ^ 48) < int (2 ^ 60)"
      using timeUnits_v2 (2) [OF hib, of mid] by (simp only: of_nat_less_iff)
    then have tb: "sint tu < 2 ^ 60" by (simp add: tk)
    have t0: "0 \<le> sint tu" by (simp add: tk)
    have e: "sint (ext (addTicks UUIDTimeBase tu)) = 49916304000 + (100 * sint tu) div 1000000000"
      and ns: "sint (nsec (addTicks UUIDTimeBase tu)) = (100 * sint tu) mod 1000000000"
      using addTicks_UUIDTimeBase [OF t0 tb] by simp_all
    have T: "TimeInfo u le = Some (addTicks UUIDTimeBase tu, uint (maskByte (u ! 8)), uint (u ! 9), uint lo)"
      using TimeInfo_16 [OF assms lo mid hi v] by (simp add: tu_def)
    show ?thesis
      using v lo mid hi m T e ns tk by (simp add: base tu_def)
  qed
  have v1: ?thesis if v: "Version u = Some 1"
  proof -
    have T: "TimeInfo u le = Some (addTicks UUIDTimeBase (timeUnits 1 lo mid hi),
        push_bit 8 (uint (maskByte (u ! 8))) + uint (u ! 9), 0, 0)"
      using TimeInfo_16 [OF assms lo mid hi v] by simp
    show ?thesis using v m T by (simp add: push_bit_eq_mult)
  qed
  show ?thesis
    using v1 v2 by (cases "Version u = Some 1"; cases "Version u = Some 2") simp_all
qed

lemma exampleUUID2_fields:
  "length exampleUUID2 = 16"
  "Version exampleUUID2 = Some 2"
  "timeLow exampleUUID2 False = Some 0x8be4df61"
  "timeMid exampleUUID2 False = Some 0x93ca"
  "timeHigh exampleUUID2 False = Some 0x1d2"
  "MaskVariant exampleUUID2 = Some 0x2a"
  by (simp_all add: exampleUUID2_def Version_def timeLow_def timeMid_def timeHigh_def index_def
      idx_defs Let_def MaskVariant_def maskByte_def)

theorem TimeInfo_version_fields_witness:
  "length exampleUUID2 = 16 \<and> Version exampleUUID2 = Some 2
   \<and> (\<exists>t. TimeInfo exampleUUID2 False = Some (t, 42, 13, 2347032417)
          \<and> sint (ext t) = 63049287493 \<and> sint (nsec t) = 984256000)
   \<and> length exampleUUID = 16 \<and> Version exampleUUID = Some 1
   \<and> (\<exists>t. TimeInfo exampleUUID False = Some (t, 10765, 0, 0))"
proof -
  have base: "sint (ext UUIDTimeBase) = 49916304000"
    by (simp add: UUIDTimeBase_def)
  have m: "MaskVariant exampleUUID = Some 0x2a"
    by (simp add: exampleUUID_def MaskVariant_def maskByte_def index_def idx_defs)
  have 2: "\<exists>t. TimeInfo exampleUUID2 False = Some (t, 42, 13, 2347032417)
          \<and> sint (ext t) = 63049287493 \<and> sint (nsec t) = 984256000"
    using TimeInfo_version_fields [OF exampleUUID2_fields(1), of False]
    by (simp add: exampleUUID2_fields base) (simp add: exampleUUID2_def)
  have 1: "\<exists>t. TimeInfo exampleUUID False = Some (t, 10765, 0, 0)"
    using TimeInfo_version_fields [OF exampleUUID_fields(1), of False]
    by (simp add: exampleUUID_fields m) (simp add: exampleUUID_def)
  show ?thesis using 1 2 by (simp add: exampleUUID_fields exampleUUID2_fields)
qed

section \<open>Properties of rendering and parsing\<close>

lemma nibble_cases:
  "n < 16 \<Longrightarrow> n = 0 \<or> n = 1 \<or> n = 2 \<or> n = 3 \<or> n = 4 \<or> n = 5 \<or> n = 6 \<or> n = 7 \<or> n = 8
     \<or> n = 9 \<or> n = 10 \<or> n = 11 \<or> n = 12 \<or> n = 13 \<or> n = 14 \<or> n = (15::nat)"
  by arith

lemma upperHexDigit_props:
  assumes "n < 16"
  shows "reverseHexTable (upperHexDigit n) = of_nat n"
    and "upperHexDigit n \<noteq> CHR ''-''"
    and "upperHexDigit n \<noteq> CHR ''{''"
    and "upperHexDigit n \<noteq> CHR ''u''"
  using nibble_cases [OF assms]
  by (auto simp add: upperHexDigit_def hextable_def upperChar_def reverseHexTable_def)

lemma unat_nibble_hi: "unat (drop_bit 4 (b::byte)) < 16"
  using unat_byte_lt [of b] by (simp add: unat_shr4)

lemma unat_nibble_lo: "unat ((b::byte) AND 0x0f) < 16"
  by (simp add: unat_and0f)

lemma nibble_le: "unat (x::byte) < 16 \<Longrightarrow> \<not> x > 0x0f"
  by (simp add: word_less_nat_alt)

lemma byte_recombine: "push_bit 4 (drop_bit 4 (b::byte)) OR (b AND 0x0f) = b"
  by (simp add: byte_eq_iff all_lt8 bit_or_iff bit_and_iff bit_push_bit_iff bit_drop_bit_eq)

lemma ToUpper_EncodeToString: "ToUpper (EncodeToString bs) = upperHex bs"
  by (induction bs) (simp_all add: ToUpper_def upperHexDigit_def)

lemma EncodeToString_append: "EncodeToString (xs @ ys) = EncodeToString xs @ EncodeToString ys"
  by (induction xs) simp_all

lemma ToUpper_append: "ToUpper (xs @ ys) = ToUpper xs @ ToUpper ys"
  by (simp add: ToUpper_def)

lemma ToUpper_dash: "ToUpper ''-'' = ''-''"
  by (simp add: ToUpper_def upperChar_def)

lemma removeDashes_upperHex: "removeDashes (upperHex bs) = upperHex bs"
  by (induction bs)
     (simp_all add: removeDashes_def upperHexDigit_props(2) unat_nibble_hi unat_nibble_lo)

lemma removeDashes_append: "removeDashes (xs @ ys) = removeDashes xs @ removeDashes ys"
  by (simp add: removeDashes_def)

lemma removeDashes_dash: "removeDashes ''-'' = []"
  by (simp add: removeDashes_def)

lemma upperHex_append: "upperHex (xs @ ys) = upperHex xs @ upperHex ys"
  by (induction xs) simp_all

lemma length_upperHex: "length (upperHex bs) = 2 * length bs"
  by (induction bs) simp_all

lemma Decode_upperHex: "Decode (upperHex bs) = (bs, None)"
proof (induction bs)
  case Nil
  show ?case by simp
next
  case (Cons b bs)
  have hi: "reverseHexTable (upperHexDigit (unat (drop_bit 4 b))) = drop_bit 4 b"
    by (simp add: upperHexDigit_props(1) unat_nibble_hi)
  have lo: "reverseHexTable (upperHexDigit (unat (b AND 0x0f))) = b AND 0x0f"
    by (simp add: upperHexDigit_props(1) unat_nibble_lo)
  have 1: "\<not> drop_bit 4 b > 0x0f" by (rule nibble_le [OF unat_nibble_hi])
  have 2: "\<not> (b AND 0x0f) > 0x0f" by (rule nibble_le [OF unat_nibble_lo])
  show ?case
    using 1 2 by (simp add: hi lo Cons.IH byte_recombine Let_def)
qed

lemma String_16:
  assumes "length u = 16"
  shows "String u = Some (ToUpper (EncodeToString (take 4 u) @ ''-'' @ EncodeToString (take 2 (drop 4 u))
           @ ''-'' @ EncodeToString (take 2 (drop 6 u)) @ ''-'' @ EncodeToString (take 2 (drop 8 u))
           @ ''-'' @ EncodeToString (take 6 (drop 10 u))))"
  using assms by (simp add: String_def slice_def idx_defs)

lemma split_16:
  assumes "length u = 16"
  shows "take 4 u @ take 2 (drop 4 u) @ take 2 (drop 6 u) @ take 2 (drop 8 u) @ take 6 (drop 10 u) = u"
proof -
  have "take 6 (drop 10 u) = drop 10 u" using assms by simp
  moreover have "take 2 (drop 8 u) @ drop 10 u = drop 8 u"
    using take_add [of 8 2 u] append_take_drop_id [of 2 "drop 8 u"] by simp
  moreover have "take 2 (drop 6 u) @ drop 8 u = drop 6 u"
    using append_take_drop_id [of 2 "drop 6 u"] by simp
  moreover have "take 2 (drop 4 u) @ drop 6 u = drop 4 u"
    using append_take_drop_id [of 2 "drop 4 u"] by simp
  ultimately show ?thesis by simp
qed

lemma removeDashes_String:
  assumes "length u = 16" and "String u = Some s"
  shows "removeDashes s = upperHex u"
proof -
  have "removeDashes s = upperHex (take 4 u) @ upperHex (take 2 (drop 4 u)) @ upperHex (take 2 (drop 6 u))
          @ upperHex (take 2 (drop 8 u)) @ upperHex (take 6 (drop 10 u))"
    using assms(2) unfolding String_16 [OF assms(1)]
    by (auto simp add: ToUpper_append ToUpper_EncodeToString removeDashes_append removeDashes_upperHex
        ToUpper_dash removeDashes_dash simp del: append.simps)
  also have "\<dots> = upperHex (take 4 u @ take 2 (drop 4 u) @ take 2 (drop 6 u) @ take 2 (drop 8 u) @ take 6 (drop 10 u))"
    by (simp only: upperHex_append)
  finally show ?thesis by (simp only: split_16 [OF assms(1)])
qed

lemma FromString_upperHex:
  assumes "length u = 16" and "removeDashes src = upperHex u"
  shows "FromString src r = Some (u, None)"
proof -
  obtain b bs where u: "u = b # bs" using assms(1) by (cases u) auto
  define c where "c = upperHexDigit (unat (drop_bit 4 b))"
  define rest where "rest = upperHexDigit (unat (b AND 0x0f)) # upperHex bs"
  have s: "removeDashes src = c # rest" by (simp add: assms(2) u c_def rest_def)
  have c1: "c \<noteq> CHR ''{''" and c2: "c \<noteq> CHR ''u''"
    by (simp_all add: c_def upperHexDigit_props unat_nibble_hi)
  have i: "index (c # rest) 0 = Some c" by (simp add: index_def)
  have t: "TrimPrefix (c # rest) ''urn:uuid:'' = c # rest"
    using c2 by (simp add: TrimPrefix_def)
  have d: "decodeInto src (upperHex u) = (u, None)"
    using assms(1) by (simp add: decodeInto_def Decode_upperHex length_upperHex DecodedLen_def uuidLength_def)
  have "FromString src r = Some (decodeInto src (c # rest))"
    using c1 by (simp add: FromString_def s i t Let_def)
  then show ?thesis using d by (simp add: s [symmetric] assms(2))
qed

text \<open>
  Claim C2.  For every 16-byte buffer \<open>B\<close>, \<open>String\<close> returns a string, and
  \<open>FromString\<close> on that string, whatever the receiver held before, returns no error
  and leaves exactly \<open>B\<close> in the receiver.
\<close>

theorem FromString_String_roundtrip:
  assumes "length B = 16"
  shows "\<exists>s. String B = Some s \<and> FromString s r = Some (B, None)"
proof -
  obtain s where s: "String B = Some s" using String_16 [OF assms] by blast
  have "removeDashes s = upperHex B" by (rule removeDashes_String [OF assms s])
  then have "FromString s r = Some (B, None)" by (rule FromString_upperHex [OF assms])
  with s show ?thesis by simp
qed

theorem FromString_String_roundtrip_witness:
  "length exampleUUID = 16 \<and> String exampleUUID = Some ''8BE4DF61-93CA-11D2-AA0D-00E098032B8C''
   \<and> FromString ''8BE4DF61-93CA-11D2-AA0D-00E098032B8C'' [] = Some (exampleUUID, None)"
proof -
  have l: "length exampleUUID = 16" by (simp add: exampleUUID_def)
  have s: "String exampleUUID = Some ''8BE4DF61-93CA-11D2-AA0D-00E098032B8C''"
    by (simp add: exampleUUID_def String_def slice_def idx_defs ToUpper_def upperChar_def hextable_def)
  show ?thesis
    using l s FromString_String_roundtrip [OF l, of "[]"] by simp
qed

lemma Decode_length: "Decode s = (w, None) \<Longrightarrow> length s = 2 * length w"
proof (induction s arbitrary: w rule: Decode.induct)
  case (1 p q rest)
  then show ?case
    by (auto simp add: Let_def split: if_splits prod.splits)
next
  case (2 p)
  then show ?case by (simp split: if_splits)
next
  case 3
  then show ?case by simp
qed

lemma decodeInto_ok:
  "decodeInto src s = (b, None) \<longleftrightarrow> Decode s = (b, None) \<and> length b = 16"
proof (cases "Decode s")
  case (Pair w e)
  show ?thesis
  proof (cases e)
    case None
    with Pair have "length s = 2 * length w" by (simp add: Decode_length)
    then show ?thesis
      using Pair None by (auto simp add: decodeInto_def DecodedLen_def uuidLength_def Let_def split: if_splits)
  next
    case (Some x)
    then show ?thesis using Pair by (simp add: decodeInto_def)
  qed
qed

lemma decodeInto_length_error:
  assumes "Decode s = (w, None)" and "length w \<noteq> 16"
  shows "decodeInto src s = (w, Some (LengthError src (length w)))"
  using assms Decode_length [OF assms(1)]
  by (simp add: decodeInto_def DecodedLen_def uuidLength_def)

lemma TrimSuffix_brace:
  "TrimSuffix rest ''}'' = (if rest \<noteq> [] \<and> last rest = CHR ''}'' then butlast rest else rest)"
proof (cases rest rule: rev_cases)
  case Nil
  then show ?thesis by (simp add: TrimSuffix_def)
next
  case (snoc ys y)
  then show ?thesis by (simp add: TrimSuffix_def)
qed

text \<open>
  Claim C7 as stated fails: the input \<^verbatim>\<open>{8be4df61-93ca-11d2-aa0d-00e098032b8c\<close> opens
  with a brace, has no closing brace, and is accepted with the 16 bytes of the
  example.
\<close>

theorem FromString_open_brace_counterexample:
  "removeDashes ''{8be4df61-93ca-11d2-aa0d-00e098032b8c'' = ''{8be4df6193ca11d2aa0d00e098032b8c''
   \<and> FromString ''{8be4df61-93ca-11d2-aa0d-00e098032b8c'' [] = Some (exampleUUID, None)"
  by (simp add: FromString_def removeDashes_def index_def TrimPrefix_def TrimSuffix_def
      decodeInto_def reverseHexTable_def DecodedLen_def uuidLength_def exampleUUID_def Let_def)

text \<open>
  Claim C7, amended.  For every input that begins with \<open>{\<close> after the dashes are
  removed, \<open>FromString\<close> removes that brace and one trailing \<open>}\<close> if the rest ends
  with one; a missing closing brace is not an error.  The input is accepted exactly
  when what remains decodes to 16 bytes.
\<close>

theorem FromString_brace_form:
  assumes "removeDashes src = CHR ''{'' # rest"
  shows "FromString src u = Some (decodeInto src (TrimSuffix rest ''}''))
       \<and> TrimSuffix rest ''}'' = (if rest \<noteq> [] \<and> last rest = CHR ''}'' then butlast rest else rest)
       \<and> (FromString src u = Some (b, None) \<longleftrightarrow>
            Decode (TrimSuffix rest ''}'') = (b, None) \<and> length b = 16)"
proof -
  have "FromString src u = Some (decodeInto src (TrimSuffix rest ''}''))"
    by (simp add: FromString_def assms index_def TrimPrefix_def Let_def)
  then show ?thesis
    by (simp add: decodeInto_ok TrimSuffix_brace)
qed

theorem FromString_brace_form_witness:
  "removeDashes ''{8be4df61-93ca-11d2-aa0d-00e098032b8c'' = CHR ''{'' # ''8be4df6193ca11d2aa0d00e098032b8c''
   \<and> FromString ''{8be4df61-93ca-11d2-aa0d-00e098032b8c'' [] =
       Some (decodeInto ''{8be4df61-93ca-11d2-aa0d-00e098032b8c'' ''8be4df6193ca11d2aa0d00e098032b8c'')
   \<and> Decode ''8be4df6193ca11d2aa0d00e098032b8c'' = (exampleUUID, None)"
proof -
  have r: "removeDashes ''{8be4df61-93ca-11d2-aa0d-00e098032b8c'' = CHR ''{'' # ''8be4df6193ca11d2aa0d00e098032b8c''"
    by (simp add: removeDashes_def)
  have t: "TrimSuffix ''8be4df6193ca11d2aa0d00e098032b8c'' ''}'' = ''8be4df6193ca11d2aa0d00e098032b8c''"
    by (simp add: TrimSuffix_def)
  have d: "Decode ''8be4df6193ca11d2aa0d00e098032b8c'' = (exampleUUID, None)"
    by (simp add: reverseHexTable_def exampleUUID_def Let_def)
  show ?thesis
    using r d FromString_brace_form [OF r, of "[]" exampleUUID] by (simp only: t)
qed

lemma decodeInto_result:
  "\<exists>u' e. decodeInto src s = (u', e) \<and> (e = None \<longrightarrow> length u' = 16)"
proof (cases "decodeInto src s")
  case (Pair u' e)
  then show ?thesis using decodeInto_ok [of src s u'] by auto
qed

lemma FromString_panics_iff: "FromString src u = None \<longleftrightarrow> removeDashes src = []"
  by (cases "removeDashes src") (simp_all add: FromString_def index_def Let_def)

lemma FromString_returns:
  assumes "removeDashes src \<noteq> []"
  shows "\<exists>u' e. FromString src u = Some (u', e) \<and> (e = None \<longrightarrow> length u' = 16)"
proof -
  obtain c cs where s: "removeDashes src = c # cs" using assms by (cases "removeDashes src") auto
  obtain s1 where "FromString src u = Some (decodeInto src s1)"
    by (simp add: FromString_def s index_def Let_def)
  then show ?thesis using decodeInto_result [of src s1] by auto
qed

text \<open>
  Claim C8 fails on the empty string and on a string of dashes only: after the
  dashes are removed nothing is left, and \<^verbatim>\<open>s[0]\<close> is an index out of range, a
  run-time panic instead of a returned error.
\<close>

theorem FromString_empty_panics:
  "FromString [] exampleUUID = None \<and> FromString ''---'' exampleUUID = None"
  by (simp add: FromString_def removeDashes_def index_def)

lemma payloadOf_Cons:
  "removeDashes src = c # cs \<Longrightarrow>
   payloadOf src = (if c = CHR ''{'' then TrimSuffix (TrimPrefix (c # cs) ''{'') ''}''
                    else TrimPrefix (c # cs) ''urn:uuid:'')"
  by (simp add: payloadOf_def)

text \<open>
  Claim C10 as stated fails on the empty string: its payload is empty and decodes
  to 0 bytes, a count other than 16, but \<^verbatim>\<open>s[0]\<close> panics before the receiver is
  assigned, so no length error is returned.
\<close>

theorem FromString_length_error_empty_counterexample:
  "payloadOf [] = [] \<and> Decode (payloadOf []) = ([], None) \<and> length ([] :: byte list) \<noteq> 16
   \<and> FromString [] exampleUUID = None
   \<and> FromString [] exampleUUID \<noteq> Some ([], Some (LengthError [] 0))"
  by (simp add: payloadOf_def removeDashes_def TrimPrefix_def FromString_def index_def)

text \<open>
  Claim C10, amended.  For every input that is not empty after the dashes are
  removed and whose hexadecimal payload decodes without error to a number of
  bytes other than 16, \<open>FromString\<close> returns the length error with that number, and
  the receiver then holds the decoded buffer of the wrong size: a 16-byte value it
  held before the call is lost.
\<close>

theorem FromString_length_error_replaces_receiver:
  assumes "removeDashes src \<noteq> []"
    and "Decode (payloadOf src) = (w, None)"
    and "length w \<noteq> 16"
  shows "FromString src u = Some (w, Some (LengthError src (length w)))
       \<and> (length u = 16 \<longrightarrow> w \<noteq> u)"
proof -
  obtain c cs where s: "removeDashes src = c # cs"
    using assms(1) by (cases "removeDashes src") auto
  have "FromString src u = Some (decodeInto src (payloadOf src))"
    by (simp add: FromString_def s index_def Let_def payloadOf_Cons [OF s])
  then show ?thesis
    using decodeInto_length_error [OF assms(2,3), of src] assms(3) by auto
qed

theorem FromString_length_error_replaces_receiver_witness:
  "removeDashes ''00'' \<noteq> [] \<and> Decode (payloadOf ''00'') = ([0], None) \<and> length [0 :: byte] \<noteq> 16
   \<and> FromString ''00'' exampleUUID = Some ([0], Some (LengthError ''00'' 1))
   \<and> length exampleUUID = 16 \<and> [0] \<noteq> exampleUUID"
proof -
  have r: "removeDashes ''00'' \<noteq> []" by (simp add: removeDashes_def)
  have d: "Decode (payloadOf ''00'') = ([0], None)"
    by (simp add: payloadOf_def removeDashes_def TrimPrefix_def reverseHexTable_def Let_def)
  have n: "length [0 :: byte] \<noteq> 16" by simp
  have l: "length exampleUUID = 16" by (simp add: exampleUUID_def)
  show ?thesis
    using r d n l FromString_length_error_replaces_receiver [OF r d n, of exampleUUID] by simp
qed

section \<open>Properties of the payload extractor\<close>

lemma DataInfo_16:
  assumes u: "u < length h" and l: "length (h ! u) = 16"
  shows "DataInfo h u =
     Some (length h, h @ [(h ! u)[6 := (h ! u) ! 6 AND 0x0f, 8 := maskByte ((h ! u) ! 8)]])"
proof -
  define b where "b = length h"
  define h1 where "h1 = h @ [replicate 16 (0::byte)]"
  have mk: "make h (length (h ! u)) = (b, h1)" by (simp add: make_def l b_def h1_def)
  have h1u: "h1 ! u = h ! u" using u by (simp add: h1_def nth_append)
  have h1b: "h1 ! b = replicate 16 0" by (simp add: h1_def b_def)
  have lb: "b < length h1" by (simp add: h1_def b_def)
  have ub: "u \<noteq> b" using u by (simp add: b_def)
  define h2 where "h2 = h1[b := h ! u]"
  have cp: "copy h1 b u = h2"
    using l by (simp add: copy_def h1u h1b h2_def)
  have h2b: "h2 ! b = h ! u" using lb by (simp add: h2_def)
  have ld: "load h2 b versionIdx = Some ((h ! u) ! 6)"
    using l by (simp add: load_def h2b versionIdx_def)
  define h3 where "h3 = h2[b := (h ! u)[6 := (h ! u) ! 6 AND 0x0f]]"
  have a1: "assign h2 b versionIdx ((h ! u) ! 6 AND 0x0f) = Some h3"
    using l by (simp add: assign_def h2b versionIdx_def h3_def)
  have h3u: "h3 ! u = h ! u" using ub by (simp add: h3_def h2_def h1u)
  have h3b: "h3 ! b = (h ! u)[6 := (h ! u) ! 6 AND 0x0f]" using lb by (simp add: h3_def h2_def)
  have mv: "MaskVariant (h3 ! u) = Some (maskByte ((h ! u) ! 8))"
    using l by (simp add: h3u MaskVariant_def variantIdx_def)
  define h4 where "h4 = h3[b := (h ! u)[6 := (h ! u) ! 6 AND 0x0f, 8 := maskByte ((h ! u) ! 8)]]"
  have a2: "assign h3 b variantIdx (maskByte ((h ! u) ! 8)) = Some h4"
    using l by (simp add: assign_def h3b variantIdx_def h4_def)
  have D: "DataInfo h u = Some (b, h4)"
    by (simp add: DataInfo_def mk cp ld a1 mv a2 Let_def)
  have "h4 = h @ [(h ! u)[6 := (h ! u) ! 6 AND 0x0f, 8 := maskByte ((h ! u) ! 8)]]"
    by (simp add: h4_def h3_def h2_def h1_def b_def)
  with D show ?thesis by (simp add: b_def)
qed

text \<open>
  Claim C9.  For every allocated 16-byte buffer \<open>u\<close>, \<open>DataInfo\<close> returns a slice at a
  new address, 16 bytes long, equal to the buffer except that byte 6 has its high
  nibble cleared and byte 8 is \<open>MaskVariant\<close> of the buffer.  Every array of the store
  before the call, the receiver among them, is unchanged after it, and a later
  store into the returned slice does not change the receiver.
\<close>

theorem DataInfo_fresh_copy:
  assumes "u < length h" and "length (h ! u) = 16"
  shows "\<exists>b h'. DataInfo h u = Some (b, h') \<and> b = length h \<and> b \<noteq> u \<and>
           length (h' ! b) = 16 \<and>
           h' ! b = (h ! u)[6 := (h ! u) ! 6 AND 0x0f, 8 := maskByte ((h ! u) ! 8)] \<and>
           MaskVariant (h ! u) = Some (maskByte ((h ! u) ! 8)) \<and>
           (\<forall>a < length h. h' ! a = h ! a) \<and>
           (\<forall>i v h''. assign h' b i v = Some h'' \<longrightarrow> h'' ! u = h ! u)"
proof -
  define r where "r = (h ! u)[6 := (h ! u) ! 6 AND 0x0f, 8 := maskByte ((h ! u) ! 8)]"
  have D: "DataInfo h u = Some (length h, h @ [r])"
    unfolding r_def by (rule DataInfo_16 [OF assms])
  have 1: "length h \<noteq> u" using assms(1) by simp
  have 2: "length ((h @ [r]) ! length h) = 16" using assms(2) by (simp add: r_def)
  have 3: "(h @ [r]) ! length h = r" by simp
  have 4: "MaskVariant (h ! u) = Some (maskByte ((h ! u) ! 8))"
    using assms(2) by (simp add: MaskVariant_def variantIdx_def)
  have 5: "\<forall>a < length h. (h @ [r]) ! a = h ! a" by (simp add: nth_append)
  have 6: "\<forall>i v h''. assign (h @ [r]) (length h) i v = Some h'' \<longrightarrow> h'' ! u = h ! u"
    using assms(1) by (auto simp add: assign_def nth_append split: if_splits)
  show ?thesis
    using D 1 2 3 4 5 6 unfolding r_def by blast
qed

theorem DataInfo_fresh_copy_witness:
  "(0::nat) < length exampleStore \<and> length (exampleStore ! 0) = 16 \<and>
   (\<exists>b h'. DataInfo exampleStore 0 = Some (b, h') \<and> b = 1 \<and>
      h' ! b = [0x8b, 0xe4, 0xdf, 0x61, 0x93, 0xca, 0x01, 0xd2, 0x2a, 0x0d, 0x00, 0xe0, 0x98, 0x03, 0x2b, 0x8c] \<and>
      h' ! 0 = exampleUUID)"
proof -
  have a: "(0::nat) < length exampleStore" by (simp add: exampleStore_def)
  have b: "length (exampleStore ! 0) = 16" by (simp add: exampleStore_def exampleUUID_def)
  obtain c h' where D: "DataInfo exampleStore 0 = Some (c, h')" and c: "c = length exampleStore"
    and hc: "h' ! c = (exampleStore ! 0)[6 := (exampleStore ! 0) ! 6 AND 0x0f, 8 := maskByte ((exampleStore ! 0) ! 8)]"
    and fr: "\<forall>a < length exampleStore. h' ! a = exampleStore ! a"
    using DataInfo_fresh_copy [OF a b] by blast
  have 1: "c = 1" using c by (simp add: exampleStore_def)
  have 2: "h' ! c = [0x8b, 0xe4, 0xdf, 0x61, 0x93, 0xca, 0x01, 0xd2, 0x2a, 0x0d, 0x00, 0xe0, 0x98, 0x03, 0x2b, 0x8c]"
    unfolding hc by (simp add: exampleStore_def exampleUUID_def maskByte_def)
  have 3: "h' ! 0 = exampleUUID" using fr a by (simp add: exampleStore_def)
  show ?thesis using a b D 1 2 3 by blast
qed

end
